theory Spec2Isabelle
  imports Complex_Main "HOL-Library.Sublist" "HOL-Library.Char_ord" "HOL-Library.List_Lexorder"
begin

section \<open>Leaderboard snapshots\<close>

text \<open>
  The bot reads leaderboard snapshots from JSON files of the shape
  \<^verbatim>\<open>{"alice": [1000, "https://...", [["AAPL", 10, "x"], ...]], ...}\<close>:
  a dictionary from username to a three-element list of balance, profile link and
  holdings, each holding a three-element list of symbol, quantity and value label.

  Python floats are modelled by real numbers: arithmetic is exact, and there is no
  infinity and no NaN among the balances. The two places where the source turns a
  balance field into a number are \<^verbatim>\<open>float(x)\<close> (in \<^verbatim>\<open>calculate_daily_performance\<close>) and
  \<^verbatim>\<open>pd.to_numeric(col, errors="coerce")\<close> (in \<^verbatim>\<open>get_user_info\<close>). A balance field is a
  JSON number, a JSON string or JSON null; a string carries what Python's numeral
  parser makes of it (\<open>Some r\<close> when the text reads as the number \<open>r\<close>, \<open>None\<close> when it is
  rejected), so that the parser itself need not be modelled.
\<close>

datatype py_error = ValueError | TypeError | ZeroDivisionError | IndexError

datatype jbalance = Number real | Text string "real option" | Null

record holding =
  symbol :: string
  quantity :: string
  value_label :: string

record user_record =
  balance :: jbalance
  profile_link :: string
  holdings :: "holding list"

text \<open>
  A Python dictionary keeps its keys in insertion order and holds each key once: a
  snapshot is an association list, and \<open>is_dict\<close> is the invariant of a dictionary.
\<close>

type_synonym snapshot = "(string \<times> user_record) list"

definition is_dict :: "('k \<times> 'v) list \<Rightarrow> bool" where
  "is_dict d = distinct (map fst d)"

text \<open>\<^verbatim>\<open>float(x)\<close>: a string that is no numeral raises ValueError, \<^verbatim>\<open>None\<close> raises TypeError.\<close>

fun py_float :: "jbalance \<Rightarrow> py_error + real" where
  "py_float (Number r) = Inr r"
| "py_float (Text s (Some r)) = Inr r"
| "py_float (Text s None) = Inl ValueError"
| "py_float Null = Inl TypeError"

section \<open>The daily performance aggregation\<close>

record performance_record =
  username :: string
  change_amount :: real
  change_percent :: real
  trades :: nat

record extreme =
  who :: string
  amount :: real
  percent :: real

record daily_summary =
  performance :: "performance_record list"
  total_trades :: nat
  biggest_gain :: extreme
  biggest_loss :: extreme
  most_active :: "performance_record list"

text \<open>
  The initial value of \<^verbatim>\<open>biggest_gain\<close> and \<^verbatim>\<open>biggest_loss\<close> (bot.py, lines 303-304):
  \<^verbatim>\<open>{"username": "", "amount": 0, "percent": 0}\<close>. The field \<open>who\<close> is the key
  \<^verbatim>\<open>"username"\<close> of that dictionary.
\<close>

definition sentinel :: extreme where
  "sentinel = \<lparr>who = [], amount = 0, percent = 0\<rparr>"

text \<open>\<^verbatim>\<open>set(stock[0] for stock in holdings)\<close> and the operator \<^verbatim>\<open>^\<close> on sets.\<close>

definition symbols :: "holding list \<Rightarrow> string set" where
  "symbols hs = set (map symbol hs)"

definition symmetric_difference :: "'a set \<Rightarrow> 'a set \<Rightarrow> 'a set" where
  "symmetric_difference X Y = (X - Y) \<union> (Y - X)"

text \<open>
  The body of the loop for one username present in both snapshots, up to the record it
  appends (lines 308-317 and 333-340). Both balances are converted before anything
  else; dividing a float by zero raises ZeroDivisionError in Python.
\<close>

definition performance_of :: "string \<Rightarrow> user_record \<Rightarrow> user_record \<Rightarrow> py_error + performance_record" where
  "performance_of name prev cur =
     (case py_float (balance prev) of
        Inl e \<Rightarrow> Inl e
      | Inr prev_money \<Rightarrow>
          (case py_float (balance cur) of
             Inl e \<Rightarrow> Inl e
           | Inr curr_money \<Rightarrow>
               (let trade_count = card (symmetric_difference (symbols (holdings cur)) (symbols (holdings prev)));
                    amount_changed = curr_money - prev_money
                in if prev_money = 0 then Inl ZeroDivisionError
                   else Inr \<lparr>username = name,
                             change_amount = amount_changed,
                             change_percent = (amount_changed / prev_money) * 100,
                             trades = trade_count\<rparr>)))"

text \<open>Lines 320-331: the running extremes, replaced on a strict comparison only.\<close>

definition as_extreme :: "performance_record \<Rightarrow> extreme" where
  "as_extreme p = \<lparr>who = username p, amount = change_amount p, percent = change_percent p\<rparr>"

definition track_gain :: "extreme \<Rightarrow> performance_record \<Rightarrow> extreme" where
  "track_gain g p = (if change_percent p > percent g then as_extreme p else g)"

definition track_loss :: "extreme \<Rightarrow> performance_record \<Rightarrow> extreme" where
  "track_loss l p = (if change_percent p < percent l then as_extreme p else l)"

text \<open>
  The loop of lines 306-340 over the keys of \<^verbatim>\<open>current_data\<close>, in their order. The state
  is the four local variables; an exception leaves the loop and the function.
\<close>

type_synonym loop_state = "performance_record list \<times> nat \<times> extreme \<times> extreme"

fun daily_loop :: "snapshot \<Rightarrow> snapshot \<Rightarrow> loop_state \<Rightarrow> py_error + loop_state" where
  "daily_loop previous_data [] st = Inr st"
| "daily_loop previous_data ((name, cur) # rest) (perf, ntrades, gain, loss) =
     (case map_of previous_data name of
        None \<Rightarrow> daily_loop previous_data rest (perf, ntrades, gain, loss)
      | Some prev \<Rightarrow>
          (case performance_of name prev cur of
             Inl e \<Rightarrow> Inl e
           | Inr p \<Rightarrow>
               daily_loop previous_data rest
                 (perf @ [p], ntrades + trades p, track_gain gain p, track_loss loss p)))"

text \<open>
  \<^verbatim>\<open>sorted(xs, key=k, reverse=True)\<close>: Python reverses the list, sorts it stably in
  ascending order and reverses it again, so that equal keys keep their order.
\<close>

definition sorted_reverse :: "('a \<Rightarrow> 'k::linorder) \<Rightarrow> 'a list \<Rightarrow> 'a list" where
  "sorted_reverse k xs = rev (sort_key k (rev xs))"

definition calculate_daily_performance :: "snapshot \<Rightarrow> snapshot \<Rightarrow> py_error + daily_summary" where
  "calculate_daily_performance previous_data current_data =
     (case daily_loop previous_data current_data ([], 0, sentinel, sentinel) of
        Inl e \<Rightarrow> Inl e
      | Inr (perf, ntrades, gain, loss) \<Rightarrow>
          Inr \<lparr>performance = sorted_reverse change_percent perf,
               total_trades = ntrades,
               biggest_gain = gain,
               biggest_loss = loss,
               most_active = take 3 (sorted_reverse trades perf)\<rparr>)"


section \<open>The leaderboard table and the user lookup\<close>

text \<open>
  The commands build a pandas DataFrame from the snapshot and rename its columns to
  \<^verbatim>\<open>"Account Name"\<close>, \<^verbatim>\<open>"Money In Account"\<close>, \<^verbatim>\<open>"Investopedia Link"\<close> and
  \<^verbatim>\<open>"Stocks Invested In"\<close>. A table is the list of its rows, in positional order. A cell
  of the money column holds the field of the snapshot or, after a coercion, NaN.
\<close>

datatype cell = Value jbalance | NaN

record row =
  account_name :: string
  money_in_account :: cell
  investopedia_link :: string
  stocks_invested_in :: "holding list"

type_synonym dataframe = "row list"

text \<open>
  \<^verbatim>\<open>pd.to_numeric(column, errors="coerce")\<close>, on one cell: numbers stay, text that
  reads as a number becomes that number, everything else becomes NaN.
\<close>

fun to_numeric :: "cell \<Rightarrow> cell" where
  "to_numeric (Value (Number r)) = Value (Number r)"
| "to_numeric (Value (Text s (Some r))) = Value (Number r)"
| "to_numeric (Value (Text s None)) = NaN"
| "to_numeric (Value Null) = NaN"
| "to_numeric NaN = NaN"

definition coerce_money :: "dataframe \<Rightarrow> dataframe" where
  "coerce_money df = map (\<lambda>r. r\<lparr>money_in_account := to_numeric (money_in_account r)\<rparr>) df"

text \<open>\<^verbatim>\<open>sep.join(parts)\<close> and the f-string of one holding (lines 35-37).\<close>

fun join :: "string \<Rightarrow> string list \<Rightarrow> string" where
  "join sep [] = []"
| "join sep [x] = x"
| "join sep (x # y # ys) = x @ sep @ join sep (y # ys)"

definition format_holding :: "holding \<Rightarrow> string" where
  "format_holding stock = symbol stock @ '': '' @ quantity stock @ '' ('' @ value_label stock @ '')''"

definition formatted_holdings :: "holding list \<Rightarrow> string" where
  "formatted_holdings user_stocks = join [CHR 0x0A] (map format_holding user_stocks)"

text \<open>
  \<^verbatim>\<open>get_user_info(df, username)\<close> (lines 23-38). The assignment to
  \<^verbatim>\<open>df["Money In Account"]\<close> changes the caller's table, so the function returns the
  table as it leaves it together with its result; \<open>None\<close> is Python's \<^verbatim>\<open>None\<close>.
\<close>

type_synonym user_info = "string \<times> cell \<times> string"

definition get_user_info :: "dataframe \<Rightarrow> string \<Rightarrow> dataframe \<times> user_info option" where
  "get_user_info df name =
     (let df' = coerce_money df;
          user_row = filter (\<lambda>r. account_name r = name) df'
      in case user_row of
           [] \<Rightarrow> (df', None)
         | user_data # _ \<Rightarrow>
             (df', Some (account_name user_data,
                         money_in_account user_data,
                         formatted_holdings (stocks_invested_in user_data))))"

text \<open>
  Lines 211-218: \<^verbatim>\<open>DataFrame.from_dict(data, orient="index")\<close>, \<^verbatim>\<open>reset_index\<close> and the
  assignment of the four column names. For an empty dictionary the table has no column
  but the index, and assigning four names to it raises ValueError (length mismatch).
\<close>

definition row_of :: "string \<times> user_record \<Rightarrow> row" where
  "row_of = (\<lambda>(name, r). \<lparr>account_name = name,
                            money_in_account = Value (balance r),
                            investopedia_link = profile_link r,
                            stocks_invested_in = holdings r\<rparr>)"

definition load_frame :: "snapshot \<Rightarrow> py_error + dataframe" where
  "load_frame data = (if data = [] then Inl ValueError else Inr (map row_of data))"

text \<open>
  Line 219: \<^verbatim>\<open>df.sort_values(by="Money In Account", ascending=False, inplace=True)\<close>.
  Missing values (\<^verbatim>\<open>None\<close>, NaN) go last. A column of numbers is sorted by value, a
  column of strings as strings, and comparing a string with a number raises TypeError.
  pandas does not fix the order of rows with equal keys; the model keeps them in
  their order, and no theorem below depends on it.
\<close>

fun is_na :: "cell \<Rightarrow> bool" where
  "is_na (Value Null) = True"
| "is_na NaN = True"
| "is_na _ = False"

fun is_number :: "cell \<Rightarrow> bool" where
  "is_number (Value (Number r)) = True"
| "is_number _ = False"

fun is_text :: "cell \<Rightarrow> bool" where
  "is_text (Value (Text s v)) = True"
| "is_text _ = False"

fun number_of :: "cell \<Rightarrow> real" where
  "number_of (Value (Number r)) = r"
| "number_of _ = 0"

fun text_of :: "cell \<Rightarrow> string" where
  "text_of (Value (Text s v)) = s"
| "text_of _ = []"

definition sort_values :: "dataframe \<Rightarrow> py_error + dataframe" where
  "sort_values df =
     (let present = filter (\<lambda>r. \<not> is_na (money_in_account r)) df;
          missing = filter (\<lambda>r. is_na (money_in_account r)) df
      in if list_all (\<lambda>r. is_number (money_in_account r)) present
         then Inr (sorted_reverse (\<lambda>r. number_of (money_in_account r)) present @ missing)
         else if list_all (\<lambda>r. is_text (money_in_account r)) present
         then Inr (sorted_reverse (\<lambda>r. text_of (money_in_account r)) present @ missing)
         else Inl TypeError)"

text \<open>\<^verbatim>\<open>df.iloc[i]\<close>: a position outside the table raises IndexError.\<close>

definition iloc :: "dataframe \<Rightarrow> nat \<Rightarrow> py_error + row" where
  "iloc df i = (if i < length df then Inr (df ! i) else Inl IndexError)"

text \<open>
  The loop of lines 225-231 over \<^verbatim>\<open>range(min(count, len(df)))\<close>. Each round calls
  \<^verbatim>\<open>get_user_info\<close> on the table the previous round left; unpacking \<^verbatim>\<open>None\<close> into three
  names raises TypeError. The message lists the entries in this order; the rendering
  of a float as text is not modelled, so the result is the list of entries.
\<close>

fun leaderboard_loop :: "dataframe \<Rightarrow> nat list \<Rightarrow> user_info list \<Rightarrow> py_error + user_info list" where
  "leaderboard_loop df [] description = Inr description"
| "leaderboard_loop df (i # rest) description =
     (case iloc df i of
        Inl e \<Rightarrow> Inl e
      | Inr r \<Rightarrow>
          (case get_user_info df (account_name r) of
             (df', None) \<Rightarrow> Inl TypeError
           | (df', Some info) \<Rightarrow> leaderboard_loop df' rest (description @ [info])))"

text \<open>
  The command \<^verbatim>\<open>/leaderboard\<close> (lines 203-241) on the parsed content of the file. Every
  exception is caught by the handler and reported to the user: the result \<open>Inl e\<close>.
\<close>

definition leaderboard :: "snapshot \<Rightarrow> int \<Rightarrow> py_error + user_info list" where
  "leaderboard data count =
     (case load_frame data of
        Inl e \<Rightarrow> Inl e
      | Inr df \<Rightarrow>
          (case sort_values df of
             Inl e \<Rightarrow> Inl e
           | Inr sorted_df \<Rightarrow>
               (let clamped = max 1 (min count 10)
                in leaderboard_loop sorted_df
                     [0 ..< nat (min clamped (int (length sorted_df)))] [])))"

section \<open>Auxiliary functions for the proofs\<close>

text \<open>
  The results of the loop body for the users present in both snapshots, in the order
  of the current snapshot, and the first error of a list of results.
\<close>

fun records :: "snapshot \<Rightarrow> snapshot \<Rightarrow> (py_error + performance_record) list" where
  "records P [] = []"
| "records P ((name, cur) # rest) =
     (case map_of P name of
        None \<Rightarrow> records P rest
      | Some prev \<Rightarrow> performance_of name prev cur # records P rest)"

fun sequence :: "('e + 'a) list \<Rightarrow> 'e + 'a list" where
  "sequence [] = Inr []"
| "sequence (Inl e # rs) = Inl e"
| "sequence (Inr x # rs) = (case sequence rs of Inl e \<Rightarrow> Inl e | Inr xs \<Rightarrow> Inr (x # xs))"

text \<open>What \<^verbatim>\<open>get_user_info\<close> returns for a row of the coerced table.\<close>

definition info_of :: "row \<Rightarrow> user_info" where
  "info_of r = (account_name r, money_in_account r, formatted_holdings (stocks_invested_in r))"


section \<open>Example snapshots\<close>

text \<open>
  A morning snapshot and an evening snapshot. Dave has left by the evening and Erin
  has joined; Bob changed a quantity only; Alice bought TSLA; Alice and Carol both
  gained twenty percent.
\<close>

definition stock :: "string \<Rightarrow> string \<Rightarrow> string \<Rightarrow> holding" where
  "stock s q v = \<lparr>symbol = s, quantity = q, value_label = v\<rparr>"

definition user :: "jbalance \<Rightarrow> holding list \<Rightarrow> user_record" where
  "user b hs = \<lparr>balance = b, profile_link = [], holdings = hs\<rparr>"

definition morning :: snapshot where
  "morning =
     [(''alice'', user (Number 1000) [stock ''AAPL'' ''10'' ''x'']),
      (''bob'', user (Number 500) [stock ''MSFT'' ''3'' ''y'']),
      (''carol'', user (Number 200) []),
      (''dave'', user (Number 50) [])]"

definition evening :: snapshot where
  "evening =
     [(''bob'', user (Number 450) [stock ''MSFT'' ''2'' ''z'']),
      (''alice'', user (Number 1200) [stock ''AAPL'' ''10'' ''x'', stock ''TSLA'' ''5'' ''y'']),
      (''erin'', user (Number 999) []),
      (''carol'', user (Number 240) [])]"

definition evening_summary :: daily_summary where
  "evening_summary =
     \<lparr>performance =
        [\<lparr>username = ''alice'', change_amount = 200, change_percent = 20, trades = 1\<rparr>,
         \<lparr>username = ''carol'', change_amount = 40, change_percent = 20, trades = 0\<rparr>,
         \<lparr>username = ''bob'', change_amount = - 50, change_percent = - 10, trades = 0\<rparr>],
      total_trades = 1,
      biggest_gain = \<lparr>who = ''alice'', amount = 200, percent = 20\<rparr>,
      biggest_loss = \<lparr>who = ''bob'', amount = - 50, percent = - 10\<rparr>,
      most_active =
        [\<lparr>username = ''alice'', change_amount = 200, change_percent = 20, trades = 1\<rparr>,
         \<lparr>username = ''bob'', change_amount = - 50, change_percent = - 10, trades = 0\<rparr>,
         \<lparr>username = ''carol'', change_amount = 40, change_percent = 20, trades = 0\<rparr>]\<rparr>"

text \<open>
  A day on which nothing moved; a morning in which Alice starts from a balance of zero,
  with its evening; a morning in which, besides, Bob's balance is no number; and the
  same two users with Bob first in both snapshots.
\<close>

definition flat_day :: snapshot where
  "flat_day = [(''alice'', user (Number 1000) [])]"

definition flat_summary :: daily_summary where
  "flat_summary =
     \<lparr>performance = [\<lparr>username = ''alice'', change_amount = 0, change_percent = 0, trades = 0\<rparr>],
      total_trades = 0,
      biggest_gain = \<lparr>who = [], amount = 0, percent = 0\<rparr>,
      biggest_loss = \<lparr>who = [], amount = 0, percent = 0\<rparr>,
      most_active = [\<lparr>username = ''alice'', change_amount = 0, change_percent = 0, trades = 0\<rparr>]\<rparr>"

definition zero_morning :: snapshot where
  "zero_morning = [(''alice'', user (Number 0) []), (''bob'', user (Number 100) [])]"

definition zero_evening :: snapshot where
  "zero_evening = [(''alice'', user (Number 5) []), (''bob'', user (Number 110) [])]"

definition mixed_morning :: snapshot where
  "mixed_morning = [(''alice'', user (Number 0) []), (''bob'', user (Text ''n/a'' None) [])]"

definition late_zero_morning :: snapshot where
  "late_zero_morning = [(''bob'', user (Text ''n/a'' None) []), (''alice'', user (Number 0) [])]"

definition late_zero_evening :: snapshot where
  "late_zero_evening = [(''bob'', user (Number 110) []), (''alice'', user (Number 5) [])]"

text \<open>
  A table in which Bob's money is no number and Dan's is the text of a number, and a
  table with one name in two rows (which no dictionary produces).
\<close>

definition board_frame :: dataframe where
  "board_frame =
     [\<lparr>account_name = ''alice'', money_in_account = Value (Number 1200),
       investopedia_link = [], stocks_invested_in = [stock ''AAPL'' ''10'' ''x'', stock ''TSLA'' ''5'' ''y'']\<rparr>,
      \<lparr>account_name = ''bob'', money_in_account = Value (Text ''n/a'' None),
       investopedia_link = [], stocks_invested_in = []\<rparr>,
      \<lparr>account_name = ''dan'', money_in_account = Value (Text ''250'' (Some 250)),
       investopedia_link = [], stocks_invested_in = []\<rparr>]"

definition twin_frame :: dataframe where
  "twin_frame =
     [\<lparr>account_name = ''alice'', money_in_account = Value (Number 1),
       investopedia_link = [], stocks_invested_in = [stock ''AAPL'' ''10'' ''x'']\<rparr>,
      \<lparr>account_name = ''alice'', money_in_account = Value (Number 2),
       investopedia_link = [], stocks_invested_in = []\<rparr>]"

section \<open>The loop as a list of results\<close>

lemma daily_loop_sequence:
  "daily_loop P C (perf, n, g, l) =
     (case sequence (records P C) of
        Inl e \<Rightarrow> Inl e
      | Inr ps \<Rightarrow> Inr (perf @ ps, n + sum_list (map trades ps), foldl track_gain g ps, foldl track_loss l ps))"
proof (induction C arbitrary: perf n g l)
  case Nil
  show ?case by simp
next
  case (Cons c C)
  obtain name cur where c: "c = (name, cur)" by (cases c)
  show ?case
  proof (cases "map_of P name")
    case None
    with c Cons show ?thesis by simp
  next
    case (Some prev)
    show ?thesis
    proof (cases "performance_of name prev cur")
      case (Inl e)
      with c Some show ?thesis by simp
    next
      case (Inr p)
      with c Some Cons show ?thesis by (simp split: sum.splits)
    qed
  qed
qed

lemma sequence_Inr_iff: "sequence rs = Inr ps \<longleftrightarrow> rs = map Inr ps"
proof (induction rs arbitrary: ps)
  case Nil
  show ?case by auto
next
  case (Cons r rs)
  show ?case
  proof (cases r)
    case (Inl e)
    then show ?thesis by (cases ps) auto
  next
    case (Inr x)
    show ?thesis
    proof (cases "sequence rs")
      case (Inl e)
      have "rs \<noteq> map Inr qs" for qs
        using Cons.IH [of qs] Inl by auto
      with Inl Inr show ?thesis by (cases ps) auto
    next
      case inr: (Inr xs)
      with Cons.IH [of xs] have "rs = map Inr xs" by simp
      with inr Inr show ?thesis by (cases ps) (auto simp: inj_map_eq_map)
    qed
  qed
qed

lemma sequence_Inl_iff: "(\<exists>e. sequence rs = Inl e) \<longleftrightarrow> (\<exists>r\<in>set rs. isl r)"
proof (induction rs)
  case Nil
  show ?case by simp
next
  case (Cons r rs)
  then show ?case by (cases r) (auto split: sum.splits)
qed

lemma sequence_Inl_first:
  "sequence rs = Inl e \<longleftrightarrow> (\<exists>ps rest. rs = map Inr ps @ Inl e # rest)"
proof (induction rs)
  case Nil
  show ?case by simp
next
  case (Cons r rs)
  show ?case
  proof (cases r)
    case (Inl e')
    show ?thesis
    proof
      assume "sequence (r # rs) = Inl e"
      with Inl have "e' = e" by simp
      with Inl have "r # rs = map Inr [] @ Inl e # rs" by simp
      then show "\<exists>ps rest. r # rs = map Inr ps @ Inl e # rest" by blast
    next
      assume "\<exists>ps rest. r # rs = map Inr ps @ Inl e # rest"
      then obtain ps rest where eq: "r # rs = map Inr ps @ Inl e # rest" by blast
      with Inl show "sequence (r # rs) = Inl e" by (cases ps) auto
    qed
  next
    case (Inr x)
    show ?thesis
    proof
      assume "sequence (r # rs) = Inl e"
      with Inr have "sequence rs = Inl e" by (simp split: sum.splits)
      with Cons obtain ps rest where "rs = map Inr ps @ Inl e # rest" by blast
      with Inr have "r # rs = map Inr (x # ps) @ Inl e # rest" by simp
      then show "\<exists>ps rest. r # rs = map Inr ps @ Inl e # rest" by blast
    next
      assume "\<exists>ps rest. r # rs = map Inr ps @ Inl e # rest"
      then obtain ps rest where eq: "r # rs = map Inr ps @ Inl e # rest" by blast
      with Inr obtain ps' where "ps = x # ps'" "rs = map Inr ps' @ Inl e # rest"
        by (cases ps) auto
      with Cons have "sequence rs = Inl e" by blast
      with Inr show "sequence (r # rs) = Inl e" by simp
    qed
  qed
qed

lemma records_set:
  "r \<in> set (records P C) \<longleftrightarrow>
     (\<exists>name cur prev. (name, cur) \<in> set C \<and> map_of P name = Some prev \<and> r = performance_of name prev cur)"
proof (induction C)
  case Nil
  show ?case by simp
next
  case (Cons c C)
  obtain name cur where c: "c = (name, cur)" by (cases c)
  show ?case
  proof (cases "map_of P name")
    case None
    with c Cons show ?thesis by auto
  next
    case (Some prev)
    with c Cons show ?thesis by auto
  qed
qed

lemma performance_of_username: "performance_of name prev cur = Inr p \<Longrightarrow> username p = name"
  by (auto simp: performance_of_def Let_def split: sum.splits if_splits)

lemma records_usernames:
  "records P C = map Inr ps \<Longrightarrow> map username ps = filter (\<lambda>u. map_of P u \<noteq> None) (map fst C)"
proof (induction C arbitrary: ps)
  case Nil
  then show ?case by simp
next
  case (Cons c C)
  obtain name cur where c: "c = (name, cur)" by (cases c)
  show ?case
  proof (cases "map_of P name")
    case None
    with c Cons show ?thesis by simp
  next
    case (Some prev)
    with c Cons.prems obtain p ps' where ps: "ps = p # ps'" "performance_of name prev cur = Inr p"
      "records P C = map Inr ps'"
      by (cases ps) auto
    with Cons.IH c Some show ?thesis by (simp add: performance_of_username)
  qed
qed


lemma set_sorted_reverse [simp]: "set (sorted_reverse k xs) = set xs"
  by (simp add: sorted_reverse_def)

lemma length_sorted_reverse [simp]: "length (sorted_reverse k xs) = length xs"
  by (simp add: sorted_reverse_def)

lemma distinct_sorted_reverse [simp]: "distinct (sorted_reverse k xs) = distinct xs"
  by (simp add: sorted_reverse_def)

lemma sorted_reverse_descending:
  "sorted_wrt (\<lambda>x y. k x \<ge> k y) (sorted_reverse k xs)"
proof -
  have "sorted (map k (sort_key k (rev xs)))" by simp
  then have "sorted_wrt (\<lambda>x y. k x \<le> k y) (sort_key k (rev xs))"
    by (simp add: sorted_wrt_map)
  then show ?thesis
    by (simp add: sorted_reverse_def sorted_wrt_rev)
qed

lemma sorted_reverse_stable:
  "filter (\<lambda>x. k x = c) (sorted_reverse k xs) = filter (\<lambda>x. k x = c) xs"
proof -
  have "filter (\<lambda>x. k x = c) (sort_key k (rev xs)) = filter (\<lambda>x. k x = c) (rev xs)"
    by (rule sort_key_stable)
  then have "rev (filter (\<lambda>x. k x = c) (sort_key k (rev xs))) = filter (\<lambda>x. k x = c) xs"
    by (simp add: rev_filter)
  then show ?thesis
    by (simp add: sorted_reverse_def rev_filter)
qed

lemma distinct_map_sorted_reverse:
  "distinct (map f (sorted_reverse k xs)) = distinct (map f xs)"
  by (simp add: distinct_map)

lemma filter_unique:
  "distinct (map f xs) \<Longrightarrow> x \<in> set xs \<Longrightarrow> filter (\<lambda>y. f y = f x) xs = [x]"
proof (induction xs)
  case Nil
  then show ?case by simp
next
  case (Cons a xs)
  show ?case
  proof (cases "a = x")
    case True
    from Cons.prems(1) True have "f x \<notin> f ` set xs" by simp
    then have "\<forall>y\<in>set xs. f y \<noteq> f x" by (metis imageI)
    then have "filter (\<lambda>y. f y = f x) xs = []"
      by (simp add: filter_empty_conv)
    with True show ?thesis by simp
  next
    case False
    with Cons.prems have "x \<in> set xs" "f a \<noteq> f x" by auto
    with Cons show ?thesis by simp
  qed
qed

text \<open>What a successful run returns, in terms of the records in iteration order.\<close>

lemma calculate_Inr:
  assumes "calculate_daily_performance A B = Inr s"
  obtains ps where "records A B = map Inr ps"
    and "s = \<lparr>performance = sorted_reverse change_percent ps,
               total_trades = sum_list (map trades ps),
               biggest_gain = foldl track_gain sentinel ps,
               biggest_loss = foldl track_loss sentinel ps,
               most_active = take 3 (sorted_reverse trades ps)\<rparr>"
proof (cases "sequence (records A B)")
  case (Inl e)
  with assms show ?thesis
    by (simp add: calculate_daily_performance_def daily_loop_sequence)
next
  case (Inr ps)
  then have "records A B = map Inr ps" by (simp add: sequence_Inr_iff)
  moreover from assms Inr have "s = \<lparr>performance = sorted_reverse change_percent ps,
               total_trades = sum_list (map trades ps),
               biggest_gain = foldl track_gain sentinel ps,
               biggest_loss = foldl track_loss sentinel ps,
               most_active = take 3 (sorted_reverse trades ps)\<rparr>"
    by (simp add: calculate_daily_performance_def daily_loop_sequence)
  ultimately show ?thesis by (rule that)
qed

lemma calculate_Inl:
  "calculate_daily_performance A B = Inl e \<longleftrightarrow> sequence (records A B) = Inl e"
  by (auto simp: calculate_daily_performance_def daily_loop_sequence split: sum.splits)

text \<open>The one record of a user present in both snapshots.\<close>

lemma record_of_user:
  assumes "calculate_daily_performance A B = Inr s" and "is_dict B"
    and "map_of A u = Some ra" and "map_of B u = Some rb"
  obtains p where "filter (\<lambda>q. username q = u) (performance s) = [p]"
    and "performance_of u ra rb = Inr p"
proof -
  from assms(1) obtain ps where ps: "records A B = map Inr ps"
    and s: "performance s = sorted_reverse change_percent ps"
    by (rule calculate_Inr) simp
  have names: "map username ps = filter (\<lambda>v. map_of A v \<noteq> None) (map fst B)"
    using ps by (rule records_usernames)
  from assms(2) have dist: "distinct (map username ps)"
    by (simp add: names is_dict_def)
  from assms(4) have inB: "(u, rb) \<in> set B" by (rule map_of_SomeD)
  with assms(3) have "performance_of u ra rb \<in> set (records A B)"
    by (auto simp: records_set)
  with ps obtain p where p: "p \<in> set ps" "performance_of u ra rb = Inr p" by auto
  then have "username p = u" by (simp add: performance_of_username)
  with p(1) dist have "filter (\<lambda>q. username q = u) (performance s) = [p]"
    using filter_unique [of username "sorted_reverse change_percent ps" p]
    by (simp add: s distinct_map_sorted_reverse)
  then show ?thesis using p(2) by (rule that)
qed


text \<open>Users outside one of the snapshots do not enter the results.\<close>

lemma map_of_filter_keys:
  "k \<in> K \<Longrightarrow> map_of (filter (\<lambda>(n, r). n \<in> K) P) k = map_of P k"
  by (induction P) auto

lemma records_cong:
  "(\<And>name. name \<in> fst ` set C \<Longrightarrow> map_of P' name = map_of P name) \<Longrightarrow> records P' C = records P C"
proof (induction C)
  case Nil
  show ?case by simp
next
  case (Cons c C)
  obtain name cur where c: "c = (name, cur)" by (cases c)
  have "map_of P' name = map_of P name"
    by (rule Cons.prems) (simp add: c)
  moreover have "records P' C = records P C"
    by (rule Cons.IH) (simp add: Cons.prems)
  ultimately show ?case by (simp add: c split: option.splits)
qed

lemma records_restrict_previous:
  "records (filter (\<lambda>(n, r). n \<in> fst ` set C) P) C = records P C"
  by (rule records_cong) (rule map_of_filter_keys)

lemma records_restrict_current:
  "records P (filter (\<lambda>(n, r). n \<in> fst ` set P) C) = records P C"
proof (induction C)
  case Nil
  show ?case by simp
next
  case (Cons c C)
  obtain name cur where c: "c = (name, cur)" by (cases c)
  show ?case
  proof (cases "map_of P name")
    case None
    then have "name \<notin> fst ` set P" by (simp add: map_of_eq_None_iff)
    with None c Cons show ?thesis by simp
  next
    case (Some prev)
    then have "name \<in> fst ` set P" by (metis map_of_eq_None_iff option.distinct(1))
    with Some c Cons show ?thesis by simp
  qed
qed

lemma calculate_records:
  "records A B = records A' B' \<Longrightarrow> calculate_daily_performance A B = calculate_daily_performance A' B'"
  by (simp add: calculate_daily_performance_def daily_loop_sequence)

text \<open>Where an error comes from.\<close>

lemma py_float_error: "py_float b = Inl e \<Longrightarrow> e = ValueError \<or> e = TypeError"
  by (cases b rule: py_float.cases) auto

lemma performance_of_Inl:
  "performance_of name prev cur = Inl e \<Longrightarrow>
     py_float (balance prev) = Inl e
     \<or> (\<exists>a. py_float (balance prev) = Inr a \<and> py_float (balance cur) = Inl e)
     \<or> (\<exists>b. py_float (balance prev) = Inr 0 \<and> py_float (balance cur) = Inr b \<and> e = ZeroDivisionError)"
  by (auto simp: performance_of_def Let_def split: sum.splits if_splits)

lemma performance_of_zero_baseline:
  "py_float (balance prev) = Inr 0 \<Longrightarrow> isl (performance_of name prev cur)"
  by (auto simp: performance_of_def Let_def split: sum.splits)

lemma performance_of_non_numeric:
  "isl (py_float (balance prev)) \<or> isl (py_float (balance cur)) \<Longrightarrow> isl (performance_of name prev cur)"
  by (auto simp: performance_of_def Let_def split: sum.splits)

lemma calculate_fails:
  assumes "(u, rb) \<in> set B" and "map_of A u = Some ra" and "isl (performance_of u ra rb)"
  shows "\<exists>e. calculate_daily_performance A B = Inl e"
proof -
  from assms(1,2) have "performance_of u ra rb \<in> set (records A B)"
    by (auto simp: records_set)
  with assms(3) have "\<exists>r\<in>set (records A B). isl r" by blast
  then obtain e where "sequence (records A B) = Inl e"
    using sequence_Inl_iff [of "records A B"] by blast
  then show ?thesis by (simp add: calculate_Inl)
qed

lemma calculate_error_source:
  assumes "calculate_daily_performance A B = Inl e"
  obtains v cv pv where "(v, cv) \<in> set B" and "map_of A v = Some pv"
    and "performance_of v pv cv = Inl e"
proof -
  from assms have "sequence (records A B) = Inl e" by (simp add: calculate_Inl)
  then obtain ps rest where "records A B = map Inr ps @ Inl e # rest"
    using sequence_Inl_first [of "records A B" e] by blast
  then have "Inl e \<in> set (records A B)" by simp
  then obtain v cv pv where "(v, cv) \<in> set B" "map_of A v = Some pv"
    "Inl e = performance_of v pv cv"
    using records_set [of "Inl e" A B] by blast
  then show ?thesis using that [of v cv pv] by simp
qed

text \<open>With numeric balances and no baseline of zero the aggregation returns a summary.\<close>

lemma calculate_succeeds:
  assumes "\<forall>(v, cv)\<in>set B. \<forall>pv. map_of A v = Some pv \<longrightarrow>
             (\<exists>a b. py_float (balance pv) = Inr a \<and> a \<noteq> 0 \<and> py_float (balance cv) = Inr b)"
  shows "\<exists>s. calculate_daily_performance A B = Inr s"
proof (cases "calculate_daily_performance A B")
  case (Inl e)
  then obtain v cv pv where v: "(v, cv) \<in> set B" "map_of A v = Some pv"
    "performance_of v pv cv = Inl e"
    by (rule calculate_error_source)
  with assms obtain a b where "py_float (balance pv) = Inr a" "a \<noteq> 0"
    "py_float (balance cv) = Inr b"
    by blast
  with performance_of_Inl [OF v(3)] show ?thesis by auto
next
  case (Inr s)
  then show ?thesis by blast
qed

text \<open>Which error is raised: that of the first compared user whose round fails.\<close>

lemma records_append: "records A (pre @ post) = records A pre @ records A post"
proof (induction pre)
  case Nil
  show ?case by simp
next
  case (Cons c pre)
  obtain name cur where c: "c = (name, cur)" by (cases c)
  with Cons show ?case by (simp split: option.splits)
qed

lemma records_first_error:
  assumes "records A B = map Inr ps @ Inl e # rest"
  shows "\<exists>pre v cv pv post. B = pre @ (v, cv) # post \<and> map_of A v = Some pv
           \<and> records A pre = map Inr ps \<and> performance_of v pv cv = Inl e"
  using assms
proof (induction B arbitrary: ps)
  case Nil
  then show ?case by simp
next
  case (Cons c B)
  obtain name cur where c: "c = (name, cur)" by (cases c)
  show ?case
  proof (cases "map_of A name")
    case None
    with Cons.prems c have "records A B = map Inr ps @ Inl e # rest" by simp
    then obtain pre v cv pv post where IH: "B = pre @ (v, cv) # post" "map_of A v = Some pv"
      "records A pre = map Inr ps" "performance_of v pv cv = Inl e"
      using Cons.IH by blast
    from IH(1) c have "c # B = (c # pre) @ (v, cv) # post" by simp
    moreover from IH(3) None c have "records A (c # pre) = map Inr ps" by simp
    ultimately show ?thesis using IH(2,4) by blast
  next
    case (Some prev)
    with Cons.prems c have eq: "performance_of name prev cur # records A B = map Inr ps @ Inl e # rest"
      by simp
    show ?thesis
    proof (cases ps)
      case Nil
      with eq have "performance_of name prev cur = Inl e" by simp
      moreover have "c # B = [] @ (name, cur) # B" by (simp add: c)
      moreover have "records A [] = map Inr ps" by (simp add: Nil)
      ultimately show ?thesis using Some by blast
    next
      case (Cons p ps')
      with eq have p: "performance_of name prev cur = Inr p"
        and rest: "records A B = map Inr ps' @ Inl e # rest" by simp_all
      from rest obtain pre v cv pv post where IH: "B = pre @ (v, cv) # post" "map_of A v = Some pv"
        "records A pre = map Inr ps'" "performance_of v pv cv = Inl e"
        using Cons.IH by blast
      from IH(1) have "c # B = (c # pre) @ (v, cv) # post" by simp
      moreover from IH(3) Some c p Cons have "records A (c # pre) = map Inr ps" by simp
      ultimately show ?thesis using IH(2,4) by blast
    qed
  qed
qed

lemma sequence_skip:
  "\<forall>r\<in>set xs. \<not> isl r \<or> r = Inl e \<Longrightarrow> sequence (xs @ Inl e # ys) = Inl e"
proof (induction xs)
  case Nil
  show ?case by simp
next
  case (Cons x xs)
  then have IH: "sequence (xs @ Inl e # ys) = Inl e" by simp
  from Cons.prems have "\<not> isl x \<or> x = Inl e" by simp
  then show ?case
  proof
    assume "\<not> isl x"
    then obtain p where "x = Inr p" by (cases x) auto
    with IH show ?thesis by simp
  next
    assume "x = Inl e"
    then show ?thesis by simp
  qed
qed

lemma performance_of_numeric:
  assumes "\<not> isl (py_float (balance pv))" and "\<not> isl (py_float (balance cv))"
  shows "\<not> isl (performance_of v pv cv) \<or> performance_of v pv cv = Inl ZeroDivisionError"
  using assms by (auto simp: performance_of_def Let_def split: sum.splits)

lemma performance_of_zero_division:
  "performance_of v pv cv = Inl ZeroDivisionError \<longleftrightarrow>
     py_float (balance pv) = Inr 0 \<and> \<not> isl (py_float (balance cv))"
proof
  assume "performance_of v pv cv = Inl ZeroDivisionError"
  from performance_of_Inl [OF this] show "py_float (balance pv) = Inr 0 \<and> \<not> isl (py_float (balance cv))"
    by (auto dest: py_float_error)
next
  assume "py_float (balance pv) = Inr 0 \<and> \<not> isl (py_float (balance cv))"
  then show "performance_of v pv cv = Inl ZeroDivisionError"
    by (auto simp: performance_of_def Let_def split: sum.splits)
qed

lemma performance_of_succeeds_numeric:
  "\<not> isl (performance_of v pv cv) \<Longrightarrow>
     \<not> isl (py_float (balance pv)) \<and> \<not> isl (py_float (balance cv))"
  using performance_of_non_numeric [of pv cv v] by blast

lemma zero_division_iff:
  "calculate_daily_performance A B = Inl ZeroDivisionError \<longleftrightarrow>
     (\<exists>pre v cv post pv. B = pre @ (v, cv) # post \<and> map_of A v = Some pv
        \<and> py_float (balance pv) = Inr 0 \<and> \<not> isl (py_float (balance cv))
        \<and> (\<forall>(w, cw)\<in>set pre. \<forall>pw. map_of A w = Some pw \<longrightarrow>
              \<not> isl (py_float (balance pw)) \<and> \<not> isl (py_float (balance cw))))"
  (is "?lhs \<longleftrightarrow> ?rhs")
proof
  assume ?lhs
  then have "sequence (records A B) = Inl ZeroDivisionError" by (simp add: calculate_Inl)
  then obtain ps rest where "records A B = map Inr ps @ Inl ZeroDivisionError # rest"
    using sequence_Inl_first [of "records A B" ZeroDivisionError] by blast
  then obtain pre v cv pv post where d: "B = pre @ (v, cv) # post" "map_of A v = Some pv"
    "records A pre = map Inr ps" "performance_of v pv cv = Inl ZeroDivisionError"
    using records_first_error by blast
  from d(4) have z: "py_float (balance pv) = Inr 0" "\<not> isl (py_float (balance cv))"
    by (simp_all add: performance_of_zero_division)
  have "\<forall>(w, cw)\<in>set pre. \<forall>pw. map_of A w = Some pw \<longrightarrow>
              \<not> isl (py_float (balance pw)) \<and> \<not> isl (py_float (balance cw))"
  proof (intro ballI, clarify)
    fix w cw pw
    assume "(w, cw) \<in> set pre" and "map_of A w = Some pw"
    then have "performance_of w pw cw \<in> set (records A pre)"
      by (auto simp: records_set)
    with d(3) have "\<not> isl (performance_of w pw cw)" by auto
    then show "\<not> isl (py_float (balance pw)) \<and> \<not> isl (py_float (balance cw))"
      by (rule performance_of_succeeds_numeric)
  qed
  with d(1,2) z show ?rhs by blast
next
  assume ?rhs
  then obtain pre v cv post pv where d: "B = pre @ (v, cv) # post" "map_of A v = Some pv"
    "py_float (balance pv) = Inr 0" "\<not> isl (py_float (balance cv))"
    and pre: "\<forall>(w, cw)\<in>set pre. \<forall>pw. map_of A w = Some pw \<longrightarrow>
              \<not> isl (py_float (balance pw)) \<and> \<not> isl (py_float (balance cw))"
    by blast
  from d(3,4) have v: "performance_of v pv cv = Inl ZeroDivisionError"
    by (simp add: performance_of_zero_division)
  have "records A B = records A pre @ records A ((v, cv) # post)"
    by (simp add: d(1) records_append)
  with d(2) v have rec: "records A B = records A pre @ Inl ZeroDivisionError # records A post"
    by simp
  have "\<forall>r\<in>set (records A pre). \<not> isl r \<or> r = Inl ZeroDivisionError"
  proof
    fix r assume "r \<in> set (records A pre)"
    then obtain w cw pw where w: "(w, cw) \<in> set pre" "map_of A w = Some pw"
      "r = performance_of w pw cw"
      by (auto simp: records_set)
    with pre have "\<not> isl (py_float (balance pw))" "\<not> isl (py_float (balance cw))" by auto
    then show "\<not> isl r \<or> r = Inl ZeroDivisionError"
      unfolding w(3) by (rule performance_of_numeric)
  qed
  then have "sequence (records A B) = Inl ZeroDivisionError"
    unfolding rec by (rule sequence_skip)
  then show ?lhs by (simp add: calculate_Inl)
qed

lemma calculate_error_kind:
  assumes "calculate_daily_performance A B = Inl e"
  shows "e = ValueError \<or> e = TypeError \<or> e = ZeroDivisionError"
proof -
  from assms obtain v cv pv where "performance_of v pv cv = Inl e"
    by (rule calculate_error_source)
  from performance_of_Inl [OF this] show ?thesis by (auto dest: py_float_error)
qed

text \<open>The running extremes as folds over the records.\<close>

lemma percent_as_extreme [simp]: "percent (as_extreme p) = change_percent p"
  by (simp add: as_extreme_def)

lemma track_gain_fold:
  "(foldl track_gain g ps = g \<and> (\<forall>p\<in>set ps. change_percent p \<le> percent g))
   \<or> (\<exists>pre p post. ps = pre @ p # post \<and> foldl track_gain g ps = as_extreme p
         \<and> percent g < change_percent p
         \<and> (\<forall>q\<in>set pre. change_percent q < change_percent p)
         \<and> (\<forall>q\<in>set post. change_percent q \<le> change_percent p))"
proof (induction ps rule: rev_induct)
  case Nil
  show ?case by simp
next
  case (snoc x ps)
  from snoc show ?case
  proof (elim disjE conjE exE)
    assume same: "foldl track_gain g ps = g" and le: "\<forall>p\<in>set ps. change_percent p \<le> percent g"
    show ?thesis
    proof (cases "change_percent x > percent g")
      case True
      have "foldl track_gain g (ps @ [x]) = track_gain g x" by (simp add: same)
      also have "track_gain g x = as_extreme x" using True by (simp add: track_gain_def)
      finally have "foldl track_gain g (ps @ [x]) = as_extreme x" .
      moreover from le True have "\<forall>q\<in>set ps. change_percent q < change_percent x" by auto
      ultimately have "ps @ [x] = ps @ x # [] \<and> foldl track_gain g (ps @ [x]) = as_extreme x
         \<and> percent g < change_percent x
         \<and> (\<forall>q\<in>set ps. change_percent q < change_percent x)
         \<and> (\<forall>q\<in>set []. change_percent q \<le> change_percent x)"
        using True by simp
      then show ?thesis by blast
    next
      case False
      have "foldl track_gain g (ps @ [x]) = track_gain g x" by (simp add: same)
      also have "track_gain g x = g" using False by (simp add: track_gain_def)
      finally have "foldl track_gain g (ps @ [x]) = g" .
      moreover from le False have "\<forall>p\<in>set (ps @ [x]). change_percent p \<le> percent g" by auto
      ultimately show ?thesis by blast
    qed
  next
    fix pre p post
    assume ps: "ps = pre @ p # post" and r: "foldl track_gain g ps = as_extreme p"
      and gt: "percent g < change_percent p"
      and pre: "\<forall>q\<in>set pre. change_percent q < change_percent p"
      and post: "\<forall>q\<in>set post. change_percent q \<le> change_percent p"
    show ?thesis
    proof (cases "change_percent x > change_percent p")
      case True
      have "foldl track_gain g (ps @ [x]) = track_gain (as_extreme p) x" by (simp add: r)
      also have "track_gain (as_extreme p) x = as_extreme x" using True by (simp add: track_gain_def)
      finally have "foldl track_gain g (ps @ [x]) = as_extreme x" .
      moreover from pre post True ps have "\<forall>q\<in>set ps. change_percent q < change_percent x"
        by auto
      ultimately have "ps @ [x] = ps @ x # [] \<and> foldl track_gain g (ps @ [x]) = as_extreme x
         \<and> percent g < change_percent x
         \<and> (\<forall>q\<in>set ps. change_percent q < change_percent x)
         \<and> (\<forall>q\<in>set []. change_percent q \<le> change_percent x)"
        using True gt by simp
      then show ?thesis by blast
    next
      case False
      have "foldl track_gain g (ps @ [x]) = track_gain (as_extreme p) x" by (simp add: r)
      also have "track_gain (as_extreme p) x = as_extreme p" using False by (simp add: track_gain_def)
      finally have "foldl track_gain g (ps @ [x]) = as_extreme p" .
      moreover from post False have "\<forall>q\<in>set (post @ [x]). change_percent q \<le> change_percent p"
        by auto
      ultimately have "ps @ [x] = pre @ p # (post @ [x]) \<and> foldl track_gain g (ps @ [x]) = as_extreme p
         \<and> percent g < change_percent p
         \<and> (\<forall>q\<in>set pre. change_percent q < change_percent p)
         \<and> (\<forall>q\<in>set (post @ [x]). change_percent q \<le> change_percent p)"
        using ps gt pre by simp
      then show ?thesis by blast
    qed
  qed
qed

lemma track_loss_fold:
  "(foldl track_loss l ps = l \<and> (\<forall>p\<in>set ps. percent l \<le> change_percent p))
   \<or> (\<exists>pre p post. ps = pre @ p # post \<and> foldl track_loss l ps = as_extreme p
         \<and> change_percent p < percent l
         \<and> (\<forall>q\<in>set pre. change_percent p < change_percent q)
         \<and> (\<forall>q\<in>set post. change_percent p \<le> change_percent q))"
proof (induction ps rule: rev_induct)
  case Nil
  show ?case by simp
next
  case (snoc x ps)
  from snoc show ?case
  proof (elim disjE conjE exE)
    assume same: "foldl track_loss l ps = l" and le: "\<forall>p\<in>set ps. percent l \<le> change_percent p"
    show ?thesis
    proof (cases "change_percent x < percent l")
      case True
      have "foldl track_loss l (ps @ [x]) = track_loss l x" by (simp add: same)
      also have "track_loss l x = as_extreme x" using True by (simp add: track_loss_def)
      finally have "foldl track_loss l (ps @ [x]) = as_extreme x" .
      moreover from le True have "\<forall>q\<in>set ps. change_percent x < change_percent q" by auto
      ultimately have "ps @ [x] = ps @ x # [] \<and> foldl track_loss l (ps @ [x]) = as_extreme x
         \<and> change_percent x < percent l
         \<and> (\<forall>q\<in>set ps. change_percent x < change_percent q)
         \<and> (\<forall>q\<in>set []. change_percent x \<le> change_percent q)"
        using True by simp
      then show ?thesis by blast
    next
      case False
      have "foldl track_loss l (ps @ [x]) = track_loss l x" by (simp add: same)
      also have "track_loss l x = l" using False by (simp add: track_loss_def)
      finally have "foldl track_loss l (ps @ [x]) = l" .
      moreover from le False have "\<forall>p\<in>set (ps @ [x]). percent l \<le> change_percent p" by auto
      ultimately show ?thesis by blast
    qed
  next
    fix pre p post
    assume ps: "ps = pre @ p # post" and r: "foldl track_loss l ps = as_extreme p"
      and gt: "change_percent p < percent l"
      and pre: "\<forall>q\<in>set pre. change_percent p < change_percent q"
      and post: "\<forall>q\<in>set post. change_percent p \<le> change_percent q"
    show ?thesis
    proof (cases "change_percent x < change_percent p")
      case True
      have "foldl track_loss l (ps @ [x]) = track_loss (as_extreme p) x" by (simp add: r)
      also have "track_loss (as_extreme p) x = as_extreme x" using True by (simp add: track_loss_def)
      finally have "foldl track_loss l (ps @ [x]) = as_extreme x" .
      moreover from pre post True ps have "\<forall>q\<in>set ps. change_percent x < change_percent q"
        by auto
      ultimately have "ps @ [x] = ps @ x # [] \<and> foldl track_loss l (ps @ [x]) = as_extreme x
         \<and> change_percent x < percent l
         \<and> (\<forall>q\<in>set ps. change_percent x < change_percent q)
         \<and> (\<forall>q\<in>set []. change_percent x \<le> change_percent q)"
        using True gt by simp
      then show ?thesis by blast
    next
      case False
      have "foldl track_loss l (ps @ [x]) = track_loss (as_extreme p) x" by (simp add: r)
      also have "track_loss (as_extreme p) x = as_extreme p" using False by (simp add: track_loss_def)
      finally have "foldl track_loss l (ps @ [x]) = as_extreme p" .
      moreover from post False have "\<forall>q\<in>set (post @ [x]). change_percent p \<le> change_percent q"
        by auto
      ultimately have "ps @ [x] = pre @ p # (post @ [x]) \<and> foldl track_loss l (ps @ [x]) = as_extreme p
         \<and> change_percent p < percent l
         \<and> (\<forall>q\<in>set pre. change_percent p < change_percent q)
         \<and> (\<forall>q\<in>set (post @ [x]). change_percent p \<le> change_percent q)"
        using ps gt pre by simp
      then show ?thesis by blast
    qed
  qed
qed

text \<open>In a stable descending sort the first record of greatest key comes first.\<close>

lemma filter_first_occurrence:
  assumes "\<forall>q\<in>set pre. \<not> P q" and "P p"
  shows "hd (filter P (pre @ p # post)) = p"
proof -
  from assms(1) have "filter P pre = []" by (simp add: filter_empty_conv)
  with assms(2) show ?thesis by simp
qed

lemma hd_sorted_reverse:
  assumes "\<forall>q\<in>set pre. k q < k p" and "\<forall>q\<in>set post. k q \<le> k p"
  shows "hd (sorted_reverse k (pre @ p # post)) = p"
proof -
  let ?xs = "sorted_reverse k (pre @ p # post)"
  have ne: "?xs \<noteq> []"
    by (metis length_sorted_reverse length_0_conv append_is_Nil_conv list.distinct(1))
  then obtain x xs where xs: "?xs = x # xs" by (cases ?xs) auto
  have "sorted_wrt (\<lambda>a b. k a \<ge> k b) ?xs" by (rule sorted_reverse_descending)
  with xs have top: "\<forall>y\<in>set ?xs. k y \<le> k x" by auto
  have "p \<in> set ?xs" by simp
  with top have "k p \<le> k x" by blast
  moreover have "x \<in> set (pre @ p # post)"
    by (metis xs list.set_intros(1) set_sorted_reverse)
  with assms have "k x \<le> k p" by auto
  ultimately have kx: "k x = k p" by simp
  have "filter (\<lambda>y. k y = k p) ?xs = filter (\<lambda>y. k y = k p) (pre @ p # post)"
    by (rule sorted_reverse_stable)
  then have "hd (filter (\<lambda>y. k y = k p) ?xs) = hd (filter (\<lambda>y. k y = k p) (pre @ p # post))"
    by simp
  also have "\<dots> = p"
    by (rule filter_first_occurrence) (use assms(1) in auto)
  finally have "hd (filter (\<lambda>y. k y = k p) ?xs) = p" .
  with xs kx show ?thesis by simp
qed

lemma first_least_sorted_reverse:
  assumes "\<forall>q\<in>set pre. k p < k q" and "\<forall>q\<in>set post. k p \<le> k q"
  shows "hd (filter (\<lambda>y. k y = k (last (sorted_reverse k (pre @ p # post))))
               (sorted_reverse k (pre @ p # post))) = p"
proof -
  let ?xs = "sorted_reverse k (pre @ p # post)"
  have ne: "?xs \<noteq> []"
    by (metis length_sorted_reverse length_0_conv append_is_Nil_conv list.distinct(1))
  have desc: "sorted_wrt (\<lambda>a b. k a \<ge> k b) ?xs" by (rule sorted_reverse_descending)
  have low: "\<forall>y\<in>set ?xs. k (last ?xs) \<le> k y"
  proof
    fix y assume "y \<in> set ?xs"
    then obtain i where i: "i < length ?xs" "?xs ! i = y" by (metis in_set_conv_nth)
    show "k (last ?xs) \<le> k y"
    proof (cases "i = length ?xs - 1")
      case True
      with i ne show ?thesis by (simp add: last_conv_nth)
    next
      case False
      with i have "i < length ?xs - 1" by simp
      with desc i(1) have "k (?xs ! i) \<ge> k (?xs ! (length ?xs - 1))"
        by (simp add: sorted_wrt_iff_nth_less)
      with i ne show ?thesis by (simp add: last_conv_nth)
    qed
  qed
  have "p \<in> set ?xs" by simp
  with low have "k (last ?xs) \<le> k p" by blast
  moreover have "last ?xs \<in> set (pre @ p # post)"
    using ne by (metis last_in_set set_sorted_reverse)
  with assms have "k p \<le> k (last ?xs)" by auto
  ultimately have kl: "k (last ?xs) = k p" by simp
  have "filter (\<lambda>y. k y = k p) ?xs = filter (\<lambda>y. k y = k p) (pre @ p # post)"
    by (rule sorted_reverse_stable)
  then have "hd (filter (\<lambda>y. k y = k p) ?xs) = hd (filter (\<lambda>y. k y = k p) (pre @ p # post))"
    by simp
  also have "\<dots> = p"
    by (rule filter_first_occurrence) (use assms(1) in auto)
  finally show ?thesis by (simp add: kl)
qed

section \<open>The table after a lookup\<close>

lemma to_numeric_idem [simp]: "to_numeric (to_numeric c) = to_numeric c"
  by (cases c rule: to_numeric.cases) simp_all

lemma length_coerce_money [simp]: "length (coerce_money df) = length df"
  by (simp add: coerce_money_def)

lemma names_coerce_money [simp]: "map account_name (coerce_money df) = map account_name df"
  by (simp add: coerce_money_def)

lemma coerce_money_idem [simp]: "coerce_money (coerce_money df) = coerce_money df"
  by (simp add: coerce_money_def)

lemma nth_coerce_money:
  "i < length df \<Longrightarrow> coerce_money df ! i = (df ! i)\<lparr>money_in_account := to_numeric (money_in_account (df ! i))\<rparr>"
  by (simp add: coerce_money_def)

lemma filter_coerce_money:
  "filter (\<lambda>r. account_name r = name) (coerce_money df)
     = coerce_money (filter (\<lambda>r. account_name r = name) df)"
  by (induction df) (simp_all add: coerce_money_def)

lemma find_filter:
  "find P xs = (case filter P xs of [] \<Rightarrow> None | x # _ \<Rightarrow> Some x)"
  by (induction xs) simp_all

lemma coerce_money_Nil [simp]: "coerce_money [] = []"
  by (simp add: coerce_money_def)

lemma coerce_money_Cons [simp]:
  "coerce_money (r # df) = r\<lparr>money_in_account := to_numeric (money_in_account r)\<rparr> # coerce_money df"
  by (simp add: coerce_money_def)

lemma get_user_info_find:
  "get_user_info df name =
     (coerce_money df,
      map_option (\<lambda>r. (account_name r, to_numeric (money_in_account r),
                         formatted_holdings (stocks_invested_in r)))
        (find (\<lambda>r. account_name r = name) df))"
proof (cases "filter (\<lambda>r. account_name r = name) df")
  case Nil
  then show ?thesis
    by (simp add: get_user_info_def Let_def filter_coerce_money find_filter)
next
  case (Cons r rs)
  then show ?thesis
    by (simp add: get_user_info_def Let_def filter_coerce_money find_filter)
qed

lemma get_user_info_at:
  assumes "distinct (map account_name df)" and "i < length df"
  shows "get_user_info df (account_name (df ! i)) = (coerce_money df, Some (info_of (coerce_money df ! i)))"
proof -
  let ?cf = "coerce_money df"
  from assms(2) have name: "account_name (?cf ! i) = account_name (df ! i)"
    by (simp add: nth_coerce_money)
  from assms(1) have "distinct (map account_name ?cf)" by simp
  moreover from assms(2) have "?cf ! i \<in> set ?cf" by simp
  ultimately have "filter (\<lambda>r. account_name r = account_name (?cf ! i)) ?cf = [?cf ! i]"
    by (rule filter_unique)
  then have "filter (\<lambda>r. account_name r = account_name (df ! i)) ?cf = [?cf ! i]"
    by (simp add: name)
  then show ?thesis
    by (simp add: get_user_info_def Let_def info_of_def)
qed

lemma leaderboard_loop_entries:
  assumes "distinct (map account_name df)" and "\<forall>i\<in>set idxs. i < length df"
  shows "leaderboard_loop df idxs acc = Inr (acc @ map (\<lambda>i. info_of (coerce_money df ! i)) idxs)"
  using assms
proof (induction idxs arbitrary: df acc)
  case Nil
  show ?case by simp
next
  case (Cons i idxs)
  from Cons.prems(2) have i: "i < length df" by simp
  have step: "get_user_info df (account_name (df ! i)) = (coerce_money df, Some (info_of (coerce_money df ! i)))"
    using Cons.prems(1) i by (rule get_user_info_at)
  have "leaderboard_loop (coerce_money df) idxs (acc @ [info_of (coerce_money df ! i)])
      = Inr ((acc @ [info_of (coerce_money df ! i)])
             @ map (\<lambda>j. info_of (coerce_money (coerce_money df) ! j)) idxs)"
    by (rule Cons.IH) (use Cons.prems in simp_all)
  with i step show ?case by (simp add: iloc_def)
qed

lemma map_nth_upt_take:
  "n \<le> length xs \<Longrightarrow> map (\<lambda>i. f (xs ! i)) [0..<n] = map f (take n xs)"
  by (rule nth_equalityI) simp_all

lemma clamp_idem: "max 1 (min (max 1 (min count 10)) 10) = max (1::int) (min count 10)"
  by simp

lemma leaderboard_clamped: "leaderboard S (max 1 (min count 10)) = leaderboard S count"
  unfolding leaderboard_def clamp_idem ..

text \<open>A table of numbers.\<close>

lemma coerce_money_numbers:
  "list_all (\<lambda>r. is_number (money_in_account r)) df \<Longrightarrow> coerce_money df = df"
proof (induction df)
  case Nil
  show ?case by simp
next
  case (Cons r df)
  from Cons.prems have "is_number (money_in_account r)" by simp
  then have "to_numeric (money_in_account r) = money_in_account r"
    by (cases "money_in_account r" rule: to_numeric.cases) simp_all
  then have "r\<lparr>money_in_account := to_numeric (money_in_account r)\<rparr> = r" by simp
  with Cons show ?case by simp
qed

lemma is_number_not_na: "is_number c \<Longrightarrow> \<not> is_na c"
  by (cases c rule: is_number.cases) simp_all

lemma sort_values_numbers:
  assumes "list_all (\<lambda>r. is_number (money_in_account r)) df"
  shows "sort_values df = Inr (sorted_reverse (\<lambda>r. number_of (money_in_account r)) df)"
proof -
  from assms have "\<forall>r\<in>set df. \<not> is_na (money_in_account r)"
    by (auto simp: list_all_iff is_number_not_na)
  then have "filter (\<lambda>r. \<not> is_na (money_in_account r)) df = df"
    "filter (\<lambda>r. is_na (money_in_account r)) df = []"
    by (simp_all add: filter_empty_conv)
  with assms show ?thesis by (simp add: sort_values_def)
qed

lemma sorted_wrt_take_drop:
  assumes "sorted_wrt R xs" and "x \<in> set (take n xs)" and "y \<in> set (drop n xs)"
  shows "R x y"
proof -
  from assms(1) have "sorted_wrt R (take n xs @ drop n xs)"
    by (simp only: append_take_drop_id)
  then have "\<forall>a\<in>set (take n xs). \<forall>b\<in>set (drop n xs). R a b"
    unfolding sorted_wrt_append by blast
  with assms(2,3) show ?thesis by blast
qed

lemma names_rows: "map account_name (map row_of S) = map fst S"
proof -
  have "account_name \<circ> row_of = fst"
    by (auto simp: row_of_def fun_eq_iff)
  then show ?thesis by simp
qed

lemma distinct_rows: "is_dict S \<Longrightarrow> distinct (map account_name (map row_of S))"
  unfolding names_rows by (simp add: is_dict_def)

lemma leaderboard_numbers:
  assumes "S \<noteq> []" and "is_dict S"
    and "list_all (\<lambda>(name, r). is_number (Value (balance r))) S"
  shows "leaderboard S count =
     Inr (map info_of (take (nat (min (max 1 (min count 10)) (int (length S))))
            (sorted_reverse (\<lambda>r. number_of (money_in_account r)) (map row_of S))))"
proof -
  let ?df = "map row_of S"
  let ?sorted = "sorted_reverse (\<lambda>r. number_of (money_in_account r)) ?df"
  let ?n = "nat (min (max 1 (min count 10)) (int (length S)))"
  from assms(1) have load: "load_frame S = Inr ?df"
    by (simp add: load_frame_def)
  from assms(3) have nums: "list_all (\<lambda>r. is_number (money_in_account r)) ?df"
    by (auto simp: list_all_iff row_of_def)
  then have sort: "sort_values ?df = Inr ?sorted" by (rule sort_values_numbers)
  from assms(2) have "distinct (map account_name ?df)"
    by (rule distinct_rows)
  then have dist: "distinct (map account_name ?sorted)"
    by (simp add: distinct_map_sorted_reverse)
  from nums have "list_all (\<lambda>r. is_number (money_in_account r)) ?sorted"
    by (simp add: list_all_iff)
  then have co: "coerce_money ?sorted = ?sorted" by (rule coerce_money_numbers)
  have n: "?n \<le> length ?sorted" by simp
  then have "\<forall>i\<in>set [0..<?n]. i < length ?sorted" by simp
  with dist have "leaderboard_loop ?sorted [0..<?n] []
       = Inr ([] @ map (\<lambda>i. info_of (coerce_money ?sorted ! i)) [0..<?n])"
    by (rule leaderboard_loop_entries)
  also have "map (\<lambda>i. info_of (coerce_money ?sorted ! i)) [0..<?n] = map info_of (take ?n ?sorted)"
    unfolding co using n by (rule map_nth_upt_take)
  finally have "leaderboard_loop ?sorted [0..<?n] [] = Inr (map info_of (take ?n ?sorted))"
    by simp
  then show ?thesis
    by (simp add: leaderboard_def load sort Let_def)
qed

section \<open>The examples, evaluated\<close>

lemmas example_defs =
  morning_def evening_def evening_summary_def user_def stock_def
  calculate_daily_performance_def performance_of_def symbols_def symmetric_difference_def
  sentinel_def track_gain_def track_loss_def as_extreme_def sorted_reverse_def is_dict_def

lemma evening_run: "calculate_daily_performance morning evening = Inr evening_summary"
  by (simp add: example_defs)

lemmas more_example_defs = flat_day_def flat_summary_def zero_morning_def zero_evening_def
  mixed_morning_def late_zero_morning_def late_zero_evening_def

lemma flat_run: "calculate_daily_performance flat_day flat_day = Inr flat_summary"
  by (simp add: example_defs more_example_defs)

lemma evening_top2:
  "leaderboard evening 2 =
     Inr [(''alice'', Value (Number 1200), ''AAPL: 10 (x)'' @ [CHR 0x0A] @ ''TSLA: 5 (y)''),
          (''erin'', Value (Number 999), [])]"
  by code_simp

section \<open>The claims about the aggregation\<close>

text \<open>
  C1. For two snapshots \<open>A\<close> (baseline) and \<open>B\<close> (current) and a username present in
  both, the summary holds exactly one performance record for that username, and its
  \<open>change_amount\<close> is the balance in \<open>B\<close> minus the balance in \<open>A\<close>.
\<close>

theorem change_amount_is_balance_difference:
  assumes "calculate_daily_performance A B = Inr s" and "is_dict B"
    and "map_of A u = Some ra" and "map_of B u = Some rb"
  shows "\<exists>p a b. filter (\<lambda>q. username q = u) (performance s) = [p]
           \<and> py_float (balance ra) = Inr a \<and> py_float (balance rb) = Inr b
           \<and> change_amount p = b - a"
proof -
  from assms obtain p where p: "filter (\<lambda>q. username q = u) (performance s) = [p]"
    and rec: "performance_of u ra rb = Inr p"
    by (rule record_of_user)
  from rec obtain a b where "py_float (balance ra) = Inr a" "py_float (balance rb) = Inr b"
    "change_amount p = b - a"
    by (auto simp: performance_of_def Let_def split: sum.splits if_splits)
  with p show ?thesis by blast
qed


theorem change_amount_is_balance_difference_witness:
  "calculate_daily_performance morning evening = Inr evening_summary
   \<and> is_dict evening
   \<and> map_of morning ''bob'' = Some (user (Number 500) [stock ''MSFT'' ''3'' ''y''])
   \<and> map_of evening ''bob'' = Some (user (Number 450) [stock ''MSFT'' ''2'' ''z''])
   \<and> (\<exists>p a b. filter (\<lambda>q. username q = ''bob'') (performance evening_summary) = [p]
          \<and> py_float (balance (user (Number 500) [stock ''MSFT'' ''3'' ''y''])) = Inr a
          \<and> py_float (balance (user (Number 450) [stock ''MSFT'' ''2'' ''z''])) = Inr b
          \<and> change_amount p = b - a)"
proof -
  have h1: "calculate_daily_performance morning evening = Inr evening_summary"
    by (rule evening_run)
  have h2: "is_dict evening"
    by (simp add: is_dict_def evening_def)
  have h3: "map_of morning ''bob'' = Some (user (Number 500) [stock ''MSFT'' ''3'' ''y''])"
    by (simp add: morning_def)
  have h4: "map_of evening ''bob'' = Some (user (Number 450) [stock ''MSFT'' ''2'' ''z''])"
    by (simp add: evening_def)
  from change_amount_is_balance_difference [OF h1 h2 h3 h4] h1 h2 h3 h4
  show ?thesis by blast
qed

text \<open>
  C2. For a username present in both snapshots, \<open>trades\<close> of its record is the size of
  the symmetric difference of the baseline and the current symbol sets, that is, the
  number of symbols held in exactly one of the two snapshots; it is 0 when the two
  holdings lists carry the same symbols, whatever their quantities and values.
\<close>

theorem trade_count_is_symmetric_difference:
  assumes "calculate_daily_performance A B = Inr s" and "is_dict B"
    and "map_of A u = Some ra" and "map_of B u = Some rb"
  shows "\<exists>p. filter (\<lambda>q. username q = u) (performance s) = [p]
           \<and> trades p = card ((symbol ` set (holdings ra) - symbol ` set (holdings rb))
                              \<union> (symbol ` set (holdings rb) - symbol ` set (holdings ra)))
           \<and> (symbol ` set (holdings ra) = symbol ` set (holdings rb) \<longrightarrow> trades p = 0)"
proof -
  from assms obtain p where p: "filter (\<lambda>q. username q = u) (performance s) = [p]"
    and rec: "performance_of u ra rb = Inr p"
    by (rule record_of_user)
  have set_eq: "symmetric_difference (symbols (holdings rb)) (symbols (holdings ra))
      = (symbol ` set (holdings ra) - symbol ` set (holdings rb))
        \<union> (symbol ` set (holdings rb) - symbol ` set (holdings ra))"
    by (auto simp: symmetric_difference_def symbols_def)
  from rec have t: "trades p = card ((symbol ` set (holdings ra) - symbol ` set (holdings rb))
                              \<union> (symbol ` set (holdings rb) - symbol ` set (holdings ra)))"
    by (auto simp: performance_of_def Let_def set_eq split: sum.splits if_splits)
  then have "symbol ` set (holdings ra) = symbol ` set (holdings rb) \<longrightarrow> trades p = 0"
    by simp
  with p t show ?thesis by blast
qed

theorem trade_count_is_symmetric_difference_witness:
  "calculate_daily_performance morning evening = Inr evening_summary
   \<and> is_dict evening
   \<and> map_of morning ''alice'' = Some (user (Number 1000) [stock ''AAPL'' ''10'' ''x''])
   \<and> map_of evening ''alice''
        = Some (user (Number 1200) [stock ''AAPL'' ''10'' ''x'', stock ''TSLA'' ''5'' ''y''])
   \<and> map_of morning ''bob'' = Some (user (Number 500) [stock ''MSFT'' ''3'' ''y''])
   \<and> map_of evening ''bob'' = Some (user (Number 450) [stock ''MSFT'' ''2'' ''z''])
   \<and> (\<exists>p. filter (\<lambda>q. username q = ''alice'') (performance evening_summary) = [p]
          \<and> trades p = card {''TSLA''})
   \<and> (\<exists>p. filter (\<lambda>q. username q = ''bob'') (performance evening_summary) = [p]
          \<and> trades p = 0)"
proof -
  have h1: "calculate_daily_performance morning evening = Inr evening_summary"
    by (rule evening_run)
  have h2: "is_dict evening"
    by (simp add: is_dict_def evening_def)
  have a3: "map_of morning ''alice'' = Some (user (Number 1000) [stock ''AAPL'' ''10'' ''x''])"
    by (simp add: morning_def)
  have a4: "map_of evening ''alice''
        = Some (user (Number 1200) [stock ''AAPL'' ''10'' ''x'', stock ''TSLA'' ''5'' ''y''])"
    by (simp add: evening_def)
  have b3: "map_of morning ''bob'' = Some (user (Number 500) [stock ''MSFT'' ''3'' ''y''])"
    by (simp add: morning_def)
  have b4: "map_of evening ''bob'' = Some (user (Number 450) [stock ''MSFT'' ''2'' ''z''])"
    by (simp add: evening_def)
  have a5: "(symbol ` set (holdings (user (Number 1000) [stock ''AAPL'' ''10'' ''x'']))
             - symbol ` set (holdings (user (Number 1200)
                 [stock ''AAPL'' ''10'' ''x'', stock ''TSLA'' ''5'' ''y''])))
          \<union> (symbol ` set (holdings (user (Number 1200)
                 [stock ''AAPL'' ''10'' ''x'', stock ''TSLA'' ''5'' ''y'']))
             - symbol ` set (holdings (user (Number 1000) [stock ''AAPL'' ''10'' ''x''])))
          = {''TSLA''}"
    by (simp add: user_def stock_def)
  have b5: "symbol ` set (holdings (user (Number 500) [stock ''MSFT'' ''3'' ''y'']))
       = symbol ` set (holdings (user (Number 450) [stock ''MSFT'' ''2'' ''z'']))"
    by (simp add: user_def stock_def)
  from trade_count_is_symmetric_difference [OF h1 h2 a3 a4]
  obtain p where p: "filter (\<lambda>q. username q = ''alice'') (performance evening_summary) = [p]"
    "trades p = card ((symbol ` set (holdings (user (Number 1000) [stock ''AAPL'' ''10'' ''x'']))
             - symbol ` set (holdings (user (Number 1200)
                 [stock ''AAPL'' ''10'' ''x'', stock ''TSLA'' ''5'' ''y''])))
          \<union> (symbol ` set (holdings (user (Number 1200)
                 [stock ''AAPL'' ''10'' ''x'', stock ''TSLA'' ''5'' ''y'']))
             - symbol ` set (holdings (user (Number 1000) [stock ''AAPL'' ''10'' ''x'']))))"
    by blast
  from p(2) have "trades p = card {''TSLA''}" unfolding a5 .
  with p(1) have alice: "\<exists>p. filter (\<lambda>q. username q = ''alice'') (performance evening_summary) = [p]
          \<and> trades p = card {''TSLA''}"
    by blast
  from trade_count_is_symmetric_difference [OF h1 h2 b3 b4]
  obtain q where q: "filter (\<lambda>q. username q = ''bob'') (performance evening_summary) = [q]"
    "symbol ` set (holdings (user (Number 500) [stock ''MSFT'' ''3'' ''y'']))
       = symbol ` set (holdings (user (Number 450) [stock ''MSFT'' ''2'' ''z''])) \<longrightarrow> trades q = 0"
    by blast
  from q(2) b5 have "trades q = 0" by (rule mp)
  with q(1) have bob: "\<exists>p. filter (\<lambda>q. username q = ''bob'') (performance evening_summary) = [p]
          \<and> trades p = 0"
    by blast
  show ?thesis
    by (intro conjI h1 h2 a3 a4 b3 b4 alice bob)
qed

text \<open>
  C7. A username has a record in the summary if and only if it is a key of both
  snapshots. Dropping from the baseline the users absent from the current snapshot, or
  from the current snapshot the users absent from the baseline, changes nothing in the
  outcome: such users contribute nothing, and no baseline is made up for them.
\<close>

theorem only_users_in_both_are_compared:
  "(calculate_daily_performance A B = Inr s \<longrightarrow>
      set (map username (performance s)) = fst ` set A \<inter> fst ` set B)
   \<and> calculate_daily_performance (filter (\<lambda>(n, r). n \<in> fst ` set B) A) B
       = calculate_daily_performance A B
   \<and> calculate_daily_performance A (filter (\<lambda>(n, r). n \<in> fst ` set A) B)
       = calculate_daily_performance A B"
proof (intro conjI impI)
  assume "calculate_daily_performance A B = Inr s"
  then obtain ps where ps: "records A B = map Inr ps"
    and s: "performance s = sorted_reverse change_percent ps"
    by (rule calculate_Inr) simp
  have "map username ps = filter (\<lambda>v. map_of A v \<noteq> None) (map fst B)"
    using ps by (rule records_usernames)
  then have "set (map username ps) = {v \<in> fst ` set B. v \<in> fst ` set A}"
    by (simp add: map_of_eq_None_iff)
  then show "set (map username (performance s)) = fst ` set A \<inter> fst ` set B"
    by (auto simp: s)
next
  show "calculate_daily_performance (filter (\<lambda>(n, r). n \<in> fst ` set B) A) B
       = calculate_daily_performance A B"
    by (intro calculate_records records_restrict_previous)
next
  show "calculate_daily_performance A (filter (\<lambda>(n, r). n \<in> fst ` set A) B)
       = calculate_daily_performance A B"
    by (intro calculate_records records_restrict_current)
qed

theorem only_users_in_both_are_compared_witness:
  "calculate_daily_performance morning evening = Inr evening_summary
   \<and> set (map username (performance evening_summary)) = fst ` set morning \<inter> fst ` set evening
   \<and> ''dave'' \<in> fst ` set morning \<and> ''dave'' \<notin> set (map username (performance evening_summary))
   \<and> ''erin'' \<in> fst ` set evening \<and> ''erin'' \<notin> set (map username (performance evening_summary))"
proof -
  have h1: "calculate_daily_performance morning evening = Inr evening_summary"
    by (rule evening_run)
  from only_users_in_both_are_compared [of morning evening evening_summary] h1
  have "set (map username (performance evening_summary)) = fst ` set morning \<inter> fst ` set evening"
    by blast
  moreover have "''dave'' \<in> fst ` set morning" "''erin'' \<in> fst ` set evening"
    by (simp_all add: morning_def evening_def)
  moreover have "''dave'' \<notin> set (map username (performance evening_summary))"
    "''erin'' \<notin> set (map username (performance evening_summary))"
    by (simp_all add: evening_summary_def)
  ultimately show ?thesis using h1 by blast
qed

text \<open>
  C8. The performance list of a summary is in descending order of \<open>change_percent\<close>,
  and the records with one and the same \<open>change_percent\<close> stand in the order of their
  usernames among the keys of the current snapshot.
\<close>

theorem performance_sorted_descending_stable:
  assumes "calculate_daily_performance A B = Inr s"
  shows "sorted_wrt (\<lambda>p q. change_percent p \<ge> change_percent q) (performance s)
         \<and> (\<forall>c. subseq (map username (filter (\<lambda>p. change_percent p = c) (performance s))) (map fst B))"
proof -
  from assms obtain ps where ps: "records A B = map Inr ps"
    and s: "performance s = sorted_reverse change_percent ps"
    by (rule calculate_Inr) simp
  have names: "map username ps = filter (\<lambda>v. map_of A v \<noteq> None) (map fst B)"
    using ps by (rule records_usernames)
  have "subseq (map username (filter (\<lambda>p. change_percent p = c) (performance s))) (map fst B)" for c
  proof -
    have "filter (\<lambda>p. change_percent p = c) (performance s) = filter (\<lambda>p. change_percent p = c) ps"
      by (simp add: s sorted_reverse_stable)
    moreover have "subseq (map username (filter (\<lambda>p. change_percent p = c) ps)) (map username ps)"
      by (simp add: subseq_map)
    moreover have "subseq (map username ps) (map fst B)"
      by (simp add: names)
    ultimately show ?thesis by (metis subseq_order.order_trans)
  qed
  then show ?thesis
    by (simp add: s sorted_reverse_descending)
qed

theorem performance_sorted_descending_stable_witness:
  "calculate_daily_performance morning evening = Inr evening_summary
   \<and> sorted_wrt (\<lambda>p q. change_percent p \<ge> change_percent q) (performance evening_summary)
   \<and> subseq (map username (filter (\<lambda>p. change_percent p = 20) (performance evening_summary)))
        (map fst evening)
   \<and> map username (filter (\<lambda>p. change_percent p = 20) (performance evening_summary))
        = [''alice'', ''carol'']"
proof -
  have h1: "calculate_daily_performance morning evening = Inr evening_summary"
    by (rule evening_run)
  have h2: "map username (filter (\<lambda>p. change_percent p = 20) (performance evening_summary))
        = [''alice'', ''carol'']"
    by (simp add: evening_summary_def)
  from performance_sorted_descending_stable [OF h1] h1 h2
  show ?thesis by blast
qed

text \<open>
  C3, as the code has it. Both extremes start from the sentinel (empty username, amount
  0, percent 0) and are replaced on a strict comparison only. When some compared user
  has a strictly positive \<open>change_percent\<close>, \<open>biggest_gain\<close> is the record of greatest
  \<open>change_percent\<close>, the first of them in the performance list (which, by C8, is the
  first in the key order of the current snapshot); otherwise it is the sentinel.
  When some compared user has a strictly negative \<open>change_percent\<close>, \<open>biggest_loss\<close> is
  the first record of least \<open>change_percent\<close>; otherwise it is the sentinel.
\<close>

theorem biggest_gain_and_loss:
  assumes "calculate_daily_performance A B = Inr s"
  shows "((\<exists>p\<in>set (performance s). 0 < change_percent p) \<longrightarrow>
            biggest_gain s = as_extreme (hd (performance s))
            \<and> (\<forall>q\<in>set (performance s). change_percent q \<le> percent (biggest_gain s)))
       \<and> ((\<forall>p\<in>set (performance s). change_percent p \<le> 0) \<longrightarrow> biggest_gain s = sentinel)
       \<and> ((\<exists>p\<in>set (performance s). change_percent p < 0) \<longrightarrow>
            biggest_loss s = as_extreme (hd (filter
               (\<lambda>q. change_percent q = change_percent (last (performance s))) (performance s)))
            \<and> (\<forall>q\<in>set (performance s). percent (biggest_loss s) \<le> change_percent q))
       \<and> ((\<forall>p\<in>set (performance s). 0 \<le> change_percent p) \<longrightarrow> biggest_loss s = sentinel)"
proof -
  from assms obtain ps where s: "performance s = sorted_reverse change_percent ps"
    "biggest_gain s = foldl track_gain sentinel ps"
    "biggest_loss s = foldl track_loss sentinel ps"
    by (rule calculate_Inr) simp
  have zero: "percent sentinel = 0" by (simp add: sentinel_def)
  have gain: "((\<exists>p\<in>set ps. 0 < change_percent p) \<longrightarrow>
            foldl track_gain sentinel ps = as_extreme (hd (sorted_reverse change_percent ps))
            \<and> (\<forall>q\<in>set ps. change_percent q \<le> percent (foldl track_gain sentinel ps)))
       \<and> ((\<forall>p\<in>set ps. change_percent p \<le> 0) \<longrightarrow> foldl track_gain sentinel ps = sentinel)"
    using track_gain_fold [of sentinel ps]
  proof (elim disjE conjE exE)
    assume "foldl track_gain sentinel ps = sentinel"
      and "\<forall>p\<in>set ps. change_percent p \<le> percent sentinel"
    then show ?thesis by (auto simp: zero)
  next
    fix pre p post
    assume ps: "ps = pre @ p # post" and r: "foldl track_gain sentinel ps = as_extreme p"
      and gt: "percent sentinel < change_percent p"
      and pre: "\<forall>q\<in>set pre. change_percent q < change_percent p"
      and post: "\<forall>q\<in>set post. change_percent q \<le> change_percent p"
    from pre post have "hd (sorted_reverse change_percent (pre @ p # post)) = p"
      by (rule hd_sorted_reverse)
    with ps r have "foldl track_gain sentinel ps = as_extreme (hd (sorted_reverse change_percent ps))"
      by simp
    moreover from ps pre post have "\<forall>q\<in>set ps. change_percent q \<le> change_percent p"
      by auto
    then have "\<forall>q\<in>set ps. change_percent q \<le> percent (foldl track_gain sentinel ps)"
      by (simp add: r)
    moreover from gt ps have "\<not> (\<forall>p\<in>set ps. change_percent p \<le> 0)"
      by (auto simp: zero)
    ultimately show ?thesis by blast
  qed
  have loss: "((\<exists>p\<in>set ps. change_percent p < 0) \<longrightarrow>
            foldl track_loss sentinel ps = as_extreme (hd (filter
               (\<lambda>q. change_percent q = change_percent (last (sorted_reverse change_percent ps)))
               (sorted_reverse change_percent ps)))
            \<and> (\<forall>q\<in>set ps. percent (foldl track_loss sentinel ps) \<le> change_percent q))
       \<and> ((\<forall>p\<in>set ps. 0 \<le> change_percent p) \<longrightarrow> foldl track_loss sentinel ps = sentinel)"
    using track_loss_fold [of sentinel ps]
  proof (elim disjE conjE exE)
    assume "foldl track_loss sentinel ps = sentinel"
      and "\<forall>p\<in>set ps. percent sentinel \<le> change_percent p"
    then show ?thesis by (auto simp: zero)
  next
    fix pre p post
    assume ps: "ps = pre @ p # post" and r: "foldl track_loss sentinel ps = as_extreme p"
      and lt: "change_percent p < percent sentinel"
      and pre: "\<forall>q\<in>set pre. change_percent p < change_percent q"
      and post: "\<forall>q\<in>set post. change_percent p \<le> change_percent q"
    from pre post have "hd (filter
        (\<lambda>y. change_percent y = change_percent (last (sorted_reverse change_percent (pre @ p # post))))
        (sorted_reverse change_percent (pre @ p # post))) = p"
      by (rule first_least_sorted_reverse)
    with ps r have "foldl track_loss sentinel ps = as_extreme (hd (filter
               (\<lambda>q. change_percent q = change_percent (last (sorted_reverse change_percent ps)))
               (sorted_reverse change_percent ps)))"
      by simp
    moreover from ps pre post have "\<forall>q\<in>set ps. change_percent p \<le> change_percent q"
      by auto
    then have "\<forall>q\<in>set ps. percent (foldl track_loss sentinel ps) \<le> change_percent q"
      by (simp add: r)
    moreover from lt ps have "\<not> (\<forall>p\<in>set ps. 0 \<le> change_percent p)"
      by (auto simp: zero)
    ultimately show ?thesis by blast
  qed
  from gain loss show ?thesis
    unfolding s set_sorted_reverse by blast
qed

theorem biggest_gain_and_loss_witness:
  "calculate_daily_performance morning evening = Inr evening_summary
   \<and> (\<exists>p\<in>set (performance evening_summary). 0 < change_percent p)
   \<and> (\<exists>p\<in>set (performance evening_summary). change_percent p < 0)
   \<and> biggest_gain evening_summary = as_extreme (hd (performance evening_summary))
   \<and> who (biggest_gain evening_summary) = ''alice''
   \<and> biggest_loss evening_summary = as_extreme (hd (filter
        (\<lambda>q. change_percent q = change_percent (last (performance evening_summary)))
        (performance evening_summary)))
   \<and> who (biggest_loss evening_summary) = ''bob''"
proof -
  have h1: "calculate_daily_performance morning evening = Inr evening_summary"
    by (rule evening_run)
  have h2: "\<exists>p\<in>set (performance evening_summary). 0 < change_percent p"
    by (simp add: evening_summary_def)
  have h3: "\<exists>p\<in>set (performance evening_summary). change_percent p < 0"
    by (simp add: evening_summary_def)
  have h4: "who (biggest_gain evening_summary) = ''alice''"
    "who (biggest_loss evening_summary) = ''bob''"
    by (simp_all add: evening_summary_def)
  from biggest_gain_and_loss [OF h1] h1 h2 h3 h4
  show ?thesis by blast
qed

text \<open>
  C3 as stated fails: on a day on which Alice's balance did not move, her
  \<open>change_percent\<close> is 0, which is not negative, and \<open>biggest_gain\<close> is still the sentinel
  with the empty username.
\<close>

theorem biggest_gain_sentinel_counterexample:
  "calculate_daily_performance flat_day flat_day = Inr flat_summary
   \<and> (\<exists>p\<in>set (performance flat_summary). 0 \<le> change_percent p)
   \<and> who (biggest_gain flat_summary) = []"
  by (simp add: flat_run) (simp add: flat_summary_def)

text \<open>
  C4, as the code has it. When a user present in both snapshots has a baseline balance
  of exactly 0, the aggregation raises and returns no summary. The error is
  ZeroDivisionError exactly when, in the key order of the current snapshot, a compared
  user with a baseline of 0 and a numeric current balance comes before every compared
  user with a balance that is no number; otherwise the ValueError or TypeError of the
  earlier conversion is the one raised.
\<close>

theorem zero_baseline_raises:
  assumes "(u, rb) \<in> set B" and "map_of A u = Some ra" and "py_float (balance ra) = Inr 0"
  shows "(\<exists>e. calculate_daily_performance A B = Inl e)
       \<and> (calculate_daily_performance A B = Inl ZeroDivisionError \<longleftrightarrow>
            (\<exists>pre v cv post pv. B = pre @ (v, cv) # post \<and> map_of A v = Some pv
               \<and> py_float (balance pv) = Inr 0 \<and> \<not> isl (py_float (balance cv))
               \<and> (\<forall>(w, cw)\<in>set pre. \<forall>pw. map_of A w = Some pw \<longrightarrow>
                     \<not> isl (py_float (balance pw)) \<and> \<not> isl (py_float (balance cw)))))"
proof
  from assms(3) have "isl (performance_of u ra rb)"
    by (rule performance_of_zero_baseline)
  with assms(1,2) show "\<exists>e. calculate_daily_performance A B = Inl e"
    by (rule calculate_fails)
  show "calculate_daily_performance A B = Inl ZeroDivisionError \<longleftrightarrow>
            (\<exists>pre v cv post pv. B = pre @ (v, cv) # post \<and> map_of A v = Some pv
               \<and> py_float (balance pv) = Inr 0 \<and> \<not> isl (py_float (balance cv))
               \<and> (\<forall>(w, cw)\<in>set pre. \<forall>pw. map_of A w = Some pw \<longrightarrow>
                     \<not> isl (py_float (balance pw)) \<and> \<not> isl (py_float (balance cw))))"
    by (rule zero_division_iff)
qed

theorem zero_baseline_raises_witness:
  "(''alice'', user (Number 5) []) \<in> set zero_evening
   \<and> map_of zero_morning ''alice'' = Some (user (Number 0) [])
   \<and> py_float (balance (user (Number 0) [])) = Inr 0
   \<and> calculate_daily_performance zero_morning zero_evening = Inl ZeroDivisionError
   \<and> (\<exists>pre v cv post pv. zero_evening = pre @ (v, cv) # post \<and> map_of zero_morning v = Some pv
               \<and> py_float (balance pv) = Inr 0 \<and> \<not> isl (py_float (balance cv))
               \<and> (\<forall>(w, cw)\<in>set pre. \<forall>pw. map_of zero_morning w = Some pw \<longrightarrow>
                     \<not> isl (py_float (balance pw)) \<and> \<not> isl (py_float (balance cw))))"
proof -
  have h1: "(''alice'', user (Number 5) []) \<in> set zero_evening"
    by (simp add: zero_evening_def)
  have h2: "map_of zero_morning ''alice'' = Some (user (Number 0) [])"
    by (simp add: zero_morning_def)
  have h3: "py_float (balance (user (Number 0) [])) = Inr 0"
    by (simp add: user_def)
  have h4: "calculate_daily_performance zero_morning zero_evening = Inl ZeroDivisionError"
    by (simp add: example_defs more_example_defs)
  from zero_baseline_raises [OF h1 h2 h3] h1 h2 h3 h4
  show ?thesis by blast
qed

text \<open>
  C4 as stated fails: Alice starts from 0, but Bob, who comes first in the evening
  snapshot, has a morning balance that is no number, and the error raised is the
  ValueError of its conversion, not the division by zero.
\<close>

theorem zero_baseline_other_error_counterexample:
  "(''alice'', user (Number 5) []) \<in> set late_zero_evening
   \<and> map_of late_zero_morning ''alice'' = Some (user (Number 0) [])
   \<and> py_float (balance (user (Number 0) [])) = Inr 0
   \<and> calculate_daily_performance late_zero_morning late_zero_evening = Inl ValueError"
  by (simp add: example_defs more_example_defs)

text \<open>
  C5, as the code has it. When a user present in both snapshots has a balance that is
  no number, in either snapshot, the aggregation fails and returns no summary. The
  error is ValueError or TypeError, unless, in the key order of the current snapshot, a
  compared user with a baseline of 0 and a numeric current balance comes before every
  compared user with a balance that is no number: then it is ZeroDivisionError.
\<close>

theorem non_numeric_balance_fails:
  assumes "(u, rb) \<in> set B" and "map_of A u = Some ra"
    and "isl (py_float (balance ra)) \<or> isl (py_float (balance rb))"
  shows "(\<exists>e. calculate_daily_performance A B = Inl e)
       \<and> ((calculate_daily_performance A B = Inl ValueError
            \<or> calculate_daily_performance A B = Inl TypeError) \<longleftrightarrow>
           \<not> (\<exists>pre v cv post pv. B = pre @ (v, cv) # post \<and> map_of A v = Some pv
               \<and> py_float (balance pv) = Inr 0 \<and> \<not> isl (py_float (balance cv))
               \<and> (\<forall>(w, cw)\<in>set pre. \<forall>pw. map_of A w = Some pw \<longrightarrow>
                     \<not> isl (py_float (balance pw)) \<and> \<not> isl (py_float (balance cw)))))"
proof
  from assms(3) have "isl (performance_of u ra rb)"
    by (rule performance_of_non_numeric)
  with assms(1,2) show fails: "\<exists>e. calculate_daily_performance A B = Inl e"
    by (rule calculate_fails)
  then obtain e where e: "calculate_daily_performance A B = Inl e" by blast
  then have kind: "e = ValueError \<or> e = TypeError \<or> e = ZeroDivisionError"
    by (rule calculate_error_kind)
  have "(calculate_daily_performance A B = Inl ValueError
          \<or> calculate_daily_performance A B = Inl TypeError)
        \<longleftrightarrow> calculate_daily_performance A B \<noteq> Inl ZeroDivisionError"
    using e kind by auto
  then show "(calculate_daily_performance A B = Inl ValueError
            \<or> calculate_daily_performance A B = Inl TypeError) \<longleftrightarrow>
           \<not> (\<exists>pre v cv post pv. B = pre @ (v, cv) # post \<and> map_of A v = Some pv
               \<and> py_float (balance pv) = Inr 0 \<and> \<not> isl (py_float (balance cv))
               \<and> (\<forall>(w, cw)\<in>set pre. \<forall>pw. map_of A w = Some pw \<longrightarrow>
                     \<not> isl (py_float (balance pw)) \<and> \<not> isl (py_float (balance cw))))"
    unfolding zero_division_iff [symmetric] .
qed

theorem non_numeric_balance_fails_witness:
  "(''bob'', user (Number 110) []) \<in> set late_zero_evening
   \<and> map_of late_zero_morning ''bob'' = Some (user (Text ''n/a'' None) [])
   \<and> isl (py_float (balance (user (Text ''n/a'' None) [])))
   \<and> calculate_daily_performance late_zero_morning late_zero_evening = Inl ValueError
   \<and> \<not> (\<exists>pre v cv post pv. late_zero_evening = pre @ (v, cv) # post
           \<and> map_of late_zero_morning v = Some pv
           \<and> py_float (balance pv) = Inr 0 \<and> \<not> isl (py_float (balance cv))
           \<and> (\<forall>(w, cw)\<in>set pre. \<forall>pw. map_of late_zero_morning w = Some pw \<longrightarrow>
                 \<not> isl (py_float (balance pw)) \<and> \<not> isl (py_float (balance cw))))"
proof -
  have h1: "(''bob'', user (Number 110) []) \<in> set late_zero_evening"
    by (simp add: late_zero_evening_def)
  have h2: "map_of late_zero_morning ''bob'' = Some (user (Text ''n/a'' None) [])"
    by (simp add: late_zero_morning_def)
  have h3: "isl (py_float (balance (user (Text ''n/a'' None) [])))"
    by (simp add: user_def)
  have h4: "calculate_daily_performance late_zero_morning late_zero_evening = Inl ValueError"
    by (simp add: example_defs more_example_defs)
  from non_numeric_balance_fails [OF h1 h2] h3 h4
  have "\<not> (\<exists>pre v cv post pv. late_zero_evening = pre @ (v, cv) # post
           \<and> map_of late_zero_morning v = Some pv
           \<and> py_float (balance pv) = Inr 0 \<and> \<not> isl (py_float (balance cv))
           \<and> (\<forall>(w, cw)\<in>set pre. \<forall>pw. map_of late_zero_morning w = Some pw \<longrightarrow>
                 \<not> isl (py_float (balance pw)) \<and> \<not> isl (py_float (balance cw))))"
    by blast
  with h1 h2 h3 h4 show ?thesis by blast
qed

text \<open>
  C5 as stated fails: Bob's morning balance is no number, but Alice, who comes first
  in the evening snapshot, starts from 0, and the error raised is ZeroDivisionError.
\<close>

theorem non_numeric_balance_counterexample:
  "(''bob'', user (Number 110) []) \<in> set zero_evening
   \<and> map_of mixed_morning ''bob'' = Some (user (Text ''n/a'' None) [])
   \<and> py_float (balance (user (Text ''n/a'' None) [])) = Inl ValueError
   \<and> calculate_daily_performance mixed_morning zero_evening = Inl ZeroDivisionError"
  by (simp add: example_defs more_example_defs)

section \<open>The claims about the table\<close>

text \<open>
  C6, as the code has it. For a non-empty snapshot whose balances are JSON numbers and
  any integer \<open>count\<close>, the command lists \<open>min(max(1, min(count, 10)), |S|)\<close> entries, in
  descending order of balance; each entry is the name, balance and formatted holdings
  of one user of the snapshot, no user twice, and no user left out has a greater
  balance than a user listed. The clamp comes first: a count of 0 gives what 1 gives,
  a count of 50 what 10 gives, and any count what its clamped value gives.
\<close>

theorem leaderboard_top_n:
  assumes "S \<noteq> []" and "is_dict S" and "\<forall>(name, r)\<in>set S. \<exists>x. balance r = Number x"
  shows "\<exists>es. leaderboard S count = Inr es
      \<and> length es = nat (min (max 1 (min count 10)) (int (length S)))
      \<and> sorted_wrt (\<lambda>e e'. number_of (fst (snd e)) \<ge> number_of (fst (snd e'))) es
      \<and> set es \<subseteq> (\<lambda>(name, r). (name, Value (balance r), formatted_holdings (holdings r))) ` set S
      \<and> distinct (map fst es)
      \<and> (\<forall>(name, r)\<in>set S. name \<notin> fst ` set es \<longrightarrow>
            (\<forall>e\<in>set es. number_of (Value (balance r)) \<le> number_of (fst (snd e))))
      \<and> leaderboard S 0 = leaderboard S 1
      \<and> leaderboard S 50 = leaderboard S 10
      \<and> leaderboard S count = leaderboard S (max 1 (min count 10))"
proof -
  let ?key = "\<lambda>r. number_of (money_in_account r)"
  let ?df = "map row_of S"
  let ?sorted = "sorted_reverse ?key ?df"
  let ?n = "nat (min (max 1 (min count 10)) (int (length S)))"
  let ?top = "take ?n ?sorted"
  let ?es = "map info_of ?top"
  from assms(3) have nums: "list_all (\<lambda>(name, r). is_number (Value (balance r))) S"
    by (auto simp: list_all_iff)
  have run: "leaderboard S count = Inr ?es"
    using assms(1,2) nums by (rule leaderboard_numbers)
  have len: "length ?es = ?n" by simp
  have desc: "sorted_wrt (\<lambda>a b. ?key a \<ge> ?key b) ?sorted"
    by (rule sorted_reverse_descending)
  have key: "number_of (fst (snd (info_of r))) = ?key r" for r
    by (simp add: info_of_def)
  have "sorted_wrt (\<lambda>a b. ?key a \<ge> ?key b) ?top"
    using desc by (rule sorted_wrt_take)
  then have ordered: "sorted_wrt (\<lambda>e e'. number_of (fst (snd e)) \<ge> number_of (fst (snd e'))) ?es"
    by (simp add: sorted_wrt_map key)
  have entry: "info_of (row_of (name, r)) = (name, Value (balance r), formatted_holdings (holdings r))"
    for name r
    by (simp add: info_of_def row_of_def)
  have "set ?top \<subseteq> set ?sorted" by (rule set_take_subset)
  then have "set ?es \<subseteq> info_of ` row_of ` set S" by auto
  also have "info_of ` row_of ` set S
      = (\<lambda>(name, r). (name, Value (balance r), formatted_holdings (holdings r))) ` set S"
  proof -
    have "info_of \<circ> row_of = (\<lambda>(name, r). (name, Value (balance r), formatted_holdings (holdings r)))"
      by (auto simp: fun_eq_iff entry)
    then show ?thesis by (metis image_comp)
  qed
  finally have sub: "set ?es \<subseteq> (\<lambda>(name, r). (name, Value (balance r), formatted_holdings (holdings r))) ` set S" .
  have fst_info: "fst \<circ> info_of = account_name"
    by (simp add: info_of_def fun_eq_iff)
  from assms(2) have "distinct (map account_name ?df)"
    by (rule distinct_rows)
  then have "distinct (map account_name ?sorted)"
    by (simp add: distinct_map_sorted_reverse)
  then have "distinct (take ?n (map account_name ?sorted))" by (rule distinct_take)
  then have dist: "distinct (map fst ?es)"
    by (simp add: take_map fst_info)
  have top: "\<forall>(name, r)\<in>set S. name \<notin> fst ` set ?es \<longrightarrow>
            (\<forall>e\<in>set ?es. number_of (Value (balance r)) \<le> number_of (fst (snd e)))"
  proof (intro ballI, clarify)
    fix name r e
    assume in_S: "(name, r) \<in> set S" and out: "name \<notin> fst ` set ?es" and e: "e \<in> set ?es"
    from e obtain a where a: "a \<in> set ?top" "e = info_of a" by auto
    have "row_of (name, r) \<in> set ?sorted" using in_S by simp
    then have "row_of (name, r) \<in> set ?top \<union> set (drop ?n ?sorted)"
      by (metis append_take_drop_id set_append)
    moreover have "row_of (name, r) \<notin> set ?top"
    proof
      assume "row_of (name, r) \<in> set ?top"
      then have "info_of (row_of (name, r)) \<in> set ?es" by simp
      then have "fst (info_of (row_of (name, r))) \<in> fst ` set ?es" by (rule imageI)
      with out show False by (simp add: entry)
    qed
    ultimately have b: "row_of (name, r) \<in> set (drop ?n ?sorted)" by simp
    from desc a(1) b have "?key (row_of (name, r)) \<le> ?key a"
      by (rule sorted_wrt_take_drop)
    then show "number_of (Value (balance r)) \<le> number_of (fst (snd e))"
      by (simp add: a(2) key row_of_def)
  qed
  have c0: "leaderboard S 0 = leaderboard S 1"
    using leaderboard_clamped [of S 0] by simp
  have c50: "leaderboard S 50 = leaderboard S 10"
    using leaderboard_clamped [of S 50] by simp
  have cc: "leaderboard S count = leaderboard S (max 1 (min count 10))"
    by (simp add: leaderboard_clamped)
  show ?thesis
    by (rule exI [of _ ?es]) (intro conjI run len ordered sub dist top c0 c50 cc)
qed

theorem leaderboard_top_n_witness:
  "evening \<noteq> [] \<and> is_dict evening
   \<and> leaderboard evening 2 =
        Inr [(''alice'', Value (Number 1200), ''AAPL: 10 (x)'' @ [CHR 0x0A] @ ''TSLA: 5 (y)''),
             (''erin'', Value (Number 999), [])]
   \<and> (\<exists>es. leaderboard evening 2 = Inr es
         \<and> length es = nat (min (max 1 (min 2 10)) (int (length evening)))
         \<and> sorted_wrt (\<lambda>e e'. number_of (fst (snd e)) \<ge> number_of (fst (snd e'))) es)"
proof -
  have h1: "evening \<noteq> []" by (simp add: evening_def)
  have h2: "is_dict evening" by (simp add: is_dict_def evening_def)
  have h3: "\<forall>(name, r)\<in>set evening. \<exists>x. balance r = Number x"
    by (simp add: evening_def user_def)
  from leaderboard_top_n [OF h1 h2 h3, of 2] h1 h2 evening_top2
  show ?thesis by blast
qed

text \<open>
  C6 as stated fails on the empty snapshot: the table cannot be given its four column
  names, and the command reports the error instead of an empty list.
\<close>

theorem leaderboard_empty_counterexample:
  "leaderboard [] 3 = Inl ValueError"
  by (simp add: leaderboard_def load_frame_def)

text \<open>
  C9. Whatever the table and the username, found or not, \<^verbatim>\<open>get_user_info\<close> leaves the
  table with its money column coerced: numbers stay, text that is no number and null
  become NaN. The table is unchanged only if every cell was its own coercion already.
\<close>

theorem get_user_info_overwrites_money_column:
  "fst (get_user_info df name)
     = map (\<lambda>r. r\<lparr>money_in_account := to_numeric (money_in_account r)\<rparr>) df
   \<and> (fst (get_user_info df name) = df
        \<longleftrightarrow> list_all (\<lambda>r. to_numeric (money_in_account r) = money_in_account r) df)
   \<and> to_numeric (Value (Text s None)) = NaN \<and> to_numeric (Value Null) = NaN"
proof -
  have "(map (\<lambda>r. r\<lparr>money_in_account := to_numeric (money_in_account r)\<rparr>) df = df)
        \<longleftrightarrow> list_all (\<lambda>r. to_numeric (money_in_account r) = money_in_account r) df"
  proof (induction df)
    case Nil
    show ?case by simp
  next
    case (Cons r df)
    have "r\<lparr>money_in_account := to_numeric (money_in_account r)\<rparr> = r
          \<longleftrightarrow> to_numeric (money_in_account r) = money_in_account r"
      by (cases r) simp
    with Cons show ?case by simp
  qed
  then show ?thesis
    by (simp add: get_user_info_find coerce_money_def)
qed

theorem get_user_info_overwrites_money_column_witness:
  "snd (get_user_info board_frame ''zed'') = None
   \<and> fst (get_user_info board_frame ''zed'') \<noteq> board_frame
   \<and> map money_in_account (fst (get_user_info board_frame ''zed''))
        = [Value (Number 1200), NaN, Value (Number 250)]"
proof -
  have "\<not> list_all (\<lambda>r. to_numeric (money_in_account r) = money_in_account r) board_frame"
    by (simp add: board_frame_def)
  with get_user_info_overwrites_money_column [of board_frame "''zed''"]
  have "fst (get_user_info board_frame ''zed'') \<noteq> board_frame"
    and "fst (get_user_info board_frame ''zed'')
          = map (\<lambda>r. r\<lparr>money_in_account := to_numeric (money_in_account r)\<rparr>) board_frame"
    by blast+
  moreover have "map money_in_account
      (map (\<lambda>r. r\<lparr>money_in_account := to_numeric (money_in_account r)\<rparr>) board_frame)
        = [Value (Number 1200), NaN, Value (Number 250)]"
    by (simp add: board_frame_def)
  moreover have "snd (get_user_info board_frame ''zed'') = None"
    by (simp add: get_user_info_def board_frame_def coerce_money_def)
  ultimately show ?thesis by simp
qed

text \<open>
  C10. \<^verbatim>\<open>get_user_info\<close> returns \<^verbatim>\<open>None\<close> exactly when no row has the username as its
  account name; otherwise it returns the name, the coerced money and the formatted
  holdings of the first row that has.
\<close>

theorem get_user_info_returns_first_match:
  "(snd (get_user_info df name) = None \<longleftrightarrow> name \<notin> account_name ` set df)
   \<and> snd (get_user_info df name)
       = map_option (\<lambda>r. (account_name r, to_numeric (money_in_account r),
                            formatted_holdings (stocks_invested_in r)))
           (find (\<lambda>r. account_name r = name) df)"
  by (auto simp: get_user_info_find find_None_iff)

theorem get_user_info_returns_first_match_witness:
  "snd (get_user_info twin_frame ''alice'') = Some (''alice'', Value (Number 1), ''AAPL: 10 (x)'')
   \<and> snd (get_user_info board_frame ''bob'') = Some (''bob'', NaN, [])
   \<and> ''zed'' \<notin> account_name ` set board_frame
   \<and> snd (get_user_info board_frame ''zed'') = None"
proof -
  have h1: "''zed'' \<notin> account_name ` set board_frame"
    by (simp add: board_frame_def)
  from get_user_info_returns_first_match [of board_frame "''zed''"] h1
  have "snd (get_user_info board_frame ''zed'') = None" by blast
  moreover from get_user_info_returns_first_match [of twin_frame "''alice''"]
  have "snd (get_user_info twin_frame ''alice'') = Some (''alice'', Value (Number 1), ''AAPL: 10 (x)'')"
    by (simp add: twin_frame_def formatted_holdings_def format_holding_def stock_def)
  moreover from get_user_info_returns_first_match [of board_frame "''bob''"]
  have "snd (get_user_info board_frame ''bob'') = Some (''bob'', NaN, [])"
    by (simp add: board_frame_def formatted_holdings_def)
  ultimately show ?thesis using h1 by blast
qed

end
